theory Spec2Isabelle
  imports Main "HOL-Library.Sublist" "HOL-Library.Multiset"
begin

section \<open>Formula editor: cursor-context scanning\<close>

text \<open>
  The formula editor component scans the editor text around the cursor to decide which
  suggestions to show. A JavaScript string is modelled as a \<open>string\<close>, one element per
  code unit (code units below 256); an index past the end reads \<open>undefined\<close>, modelled
  as \<open>None\<close>. Offsets, line numbers and columns are JavaScript numbers holding integers,
  modelled as \<open>int\<close>.
\<close>

definition char_at :: "string \<Rightarrow> nat \<Rightarrow> char option" where
  "char_at text i = (if i < length text then Some (text ! i) else None)"

abbreviation backslash :: char where "backslash \<equiv> CHR 0x5C"
abbreviation squote :: char where "squote \<equiv> CHR 0x27"
abbreviation dquote :: char where "dquote \<equiv> CHR 0x22"

subsection \<open>isCursorInsideString\<close>

text \<open>
  The loop body of \<open>isCursorInsideString\<close>, on the loop variables
  \<open>(inSingleQuoteString, inDoubleQuoteString, escapeNextChar)\<close>.
\<close>

fun string_step :: "char option \<Rightarrow> bool \<times> bool \<times> bool \<Rightarrow> bool \<times> bool \<times> bool" where
  "string_step ch (inSingle, inDouble, escapeNext) =
     (if escapeNext then (inSingle, inDouble, False)
      else if ch = Some backslash then (inSingle, inDouble, True)
      else if ch = Some squote \<and> \<not> inDouble then (\<not> inSingle, inDouble, False)
      else if ch = Some dquote \<and> \<not> inSingle then (inSingle, \<not> inDouble, False)
      else (inSingle, inDouble, False))"

definition isCursorInsideString :: "string \<Rightarrow> int \<Rightarrow> bool" where
  "isCursorInsideString text offset =
     (case fold (\<lambda>i. string_step (char_at text i)) [0..<nat offset] (False, False, False) of
        (inSingle, inDouble, _) \<Rightarrow> inDouble \<or> inSingle)"

text \<open>
  The reading of the specification: scan the characters before the offset; a backslash
  skips the character after it; a quote opens a string of its kind, and only the same
  quote closes it again.
\<close>

datatype quote_state = Outside | InSingle | InDouble

fun scan_quotes :: "quote_state \<Rightarrow> string \<Rightarrow> quote_state" where
  "scan_quotes q [] = q"
| "scan_quotes q (c # cs) =
     (if c = backslash then scan_quotes q (drop 1 cs)
      else (case q of
              Outside \<Rightarrow> scan_quotes (if c = squote then InSingle else if c = dquote then InDouble else Outside) cs
            | InSingle \<Rightarrow> scan_quotes (if c = squote then Outside else InSingle) cs
            | InDouble \<Rightarrow> scan_quotes (if c = dquote then Outside else InDouble) cs))"

definition unterminated_string :: "string \<Rightarrow> bool" where
  "unterminated_string pre = (scan_quotes Outside pre \<noteq> Outside)"


subsection \<open>JavaScript library functions\<close>

text \<open>\<open>String.prototype.substring\<close>: both indices are clamped to the string and swapped when out of order.\<close>

definition js_substring :: "string \<Rightarrow> int \<Rightarrow> int \<Rightarrow> string" where
  "js_substring s a b =
     (let len = int (length s);
          a' = max 0 (min a len);
          b' = max 0 (min b len);
          lo = min a' b';
          hi = max a' b'
      in take (nat (hi - lo)) (drop (nat lo) s))"

text \<open>The character classes \<open>\w\<close> and \<open>\s\<close> of a regular expression without the unicode flag.\<close>

definition is_word_char :: "char \<Rightarrow> bool" where
  "is_word_char c = (c \<in> set ''abcdefghijklmnopqrstuvwxyzABCDEFGHIJKLMNOPQRSTUVWXYZ0123456789_'')"

definition is_space_char :: "char \<Rightarrow> bool" where
  "is_space_char c = (c \<in> {CHR 0x09, CHR 0x0A, CHR 0x0B, CHR 0x0C, CHR 0x0D, CHR 0x20, CHR 0xA0})"

text \<open>
  \<open>Array.prototype.sort\<close> with a consistent comparison function. The language fixes the
  result: the elements in the order of the function, equal ones in their original order.
  It is computed by a stable insertion sort that places an element before the first
  later element it does not compare greater than. This definition stands only for calls
  whose comparison function is consistent.
\<close>

fun insert_js :: "('a \<Rightarrow> 'a \<Rightarrow> int) \<Rightarrow> 'a \<Rightarrow> 'a list \<Rightarrow> 'a list" where
  "insert_js cmp x [] = [x]"
| "insert_js cmp x (y # ys) = (if cmp x y \<le> 0 then x # y # ys else y # insert_js cmp x ys)"

definition sort_js :: "('a \<Rightarrow> 'a \<Rightarrow> int) \<Rightarrow> 'a list \<Rightarrow> 'a list" where
  "sort_js cmp xs = foldr (insert_js cmp) xs []"

text \<open>
  With a comparison function that is not consistent the language leaves the order to
  the engine, and the engine's sort is a parameter of the code that calls it. The
  results considered for it are those of a stable comparison sort: a rearrangement of
  the list in which no element stands before one that the function puts before it in
  both directions of asking, and in which elements that compare equal in both
  directions keep their order. For a consistent comparison function these are the
  conditions of the language.
\<close>

definition sort_result :: "('a \<Rightarrow> 'a \<Rightarrow> int) \<Rightarrow> 'a list \<Rightarrow> 'a list \<Rightarrow> bool" where
  "sort_result cmp xs r =
     (mset r = mset xs
      \<and> sorted_wrt (\<lambda>x y. \<not> (cmp y x < 0 \<and> 0 < cmp x y)) r
      \<and> (\<forall>a \<in> set xs. filter (\<lambda>x. cmp a x = 0 \<and> cmp x a = 0) r
                         = filter (\<lambda>x. cmp a x = 0 \<and> cmp x a = 0) xs))"

text \<open>\<open>query.split(/\W+/)\<close>: the parts between maximal runs of non-word characters.\<close>

fun split_aux :: "string \<Rightarrow> bool \<Rightarrow> string \<Rightarrow> string list" where
  "split_aux cur in_sep [] = [cur]"
| "split_aux cur in_sep (c # cs) =
     (if is_word_char c then split_aux (cur @ [c]) False cs
      else if in_sep then split_aux cur True cs
      else cur # split_aux [] True cs)"

definition split_nonword :: "string \<Rightarrow> string list" where
  "split_nonword query = split_aux [] False query"

text \<open>\<open>parts.pop() || ''\<close>\<close>

definition pop_or_empty :: "string list \<Rightarrow> string" where
  "pop_or_empty parts = (case rev parts of [] \<Rightarrow> [] | p # _ \<Rightarrow> p)"

text \<open>\<open>Array.prototype.findIndex\<close>, \<open>slice(start)\<close> and \<open>String.prototype.includes\<close>.\<close>

fun findIndex :: "('a \<Rightarrow> bool) \<Rightarrow> 'a list \<Rightarrow> int" where
  "findIndex P [] = - 1"
| "findIndex P (x # xs) =
     (if P x then 0 else (let r = findIndex P xs in if r = - 1 then - 1 else r + 1))"

definition js_slice :: "'a list \<Rightarrow> int \<Rightarrow> 'a list" where
  "js_slice xs start =
     (if start < 0 then drop (nat (int (length xs) + start)) xs else drop (nat start) xs)"


text \<open>\<open>String.prototype.trim\<close>\<close>

definition js_trim :: "string \<Rightarrow> string" where
  "js_trim s = rev (dropWhile is_space_char (rev (dropWhile is_space_char s)))"


subsection \<open>Validation through the SDK\<close>

text \<open>
  What \<open>validateFormulaAndExtractTreeWithType\<close> throws: a \<open>FormulaError\<close> with its
  \<open>extra\<close> object (\<open>extra_key\<close> is \<open>extra?.key\<close>, \<open>None\<close> when there is none) or
  any other error; both carry a message.
\<close>

datatype 'x sdk_error =
    FormulaError (extra_key: "string option") (extra: 'x) (message: string)
  | OtherError (message: string)

text \<open>
  The validator of \<open>formula_raw\<close>. \<open>t\<close> is the i18n translation, \<open>validate\<close> the SDK
  call with the component's column, columns, SQL client and meta loader. The result is
  the message of the thrown \<open>Error\<close>, or nothing.
\<close>

definition formula_raw_validator ::
  "(string \<Rightarrow> 'x \<Rightarrow> string) \<Rightarrow> (string \<Rightarrow> 'x sdk_error + 't) \<Rightarrow> string option \<Rightarrow> string + unit" where
  "formula_raw_validator t validate formula =
     (case formula of
        None \<Rightarrow> Inl ''Required''
      | Some f \<Rightarrow>
          if js_trim f = [] then Inl ''Required''
          else (case validate f of
                  Inr _ \<Rightarrow> Inr ()
                | Inl e \<Rightarrow>
                    (case e of
                       FormulaError k x m \<Rightarrow>
                         (case k of
                            Some key \<Rightarrow> if key \<noteq> [] then Inl (t key x) else Inl m
                          | None \<Rightarrow> Inl m)
                     | OtherError m \<Rightarrow> Inl m)))"

datatype FormulaDataTypes = UNKNOWN | OtherDataType string

text \<open>What \<open>parsedTree\<close> holds: the SDK's tree, or an object with only a \<open>dataType\<close>.\<close>

datatype 't parsed = SdkTree 't | DataTypeOnly FormulaDataTypes

record formula_vmodel =
  formula :: "string option"
  formula_raw :: "string option"

text \<open>\<open>a || b\<close> on optional strings: the empty string is falsy.\<close>

definition js_or :: "string option \<Rightarrow> string option \<Rightarrow> string option" where
  "js_or a b = (case a of None \<Rightarrow> b | Some x \<Rightarrow> if x = [] then b else a)"

definition parsedTree :: "(string option \<Rightarrow> 'err + 't) \<Rightarrow> formula_vmodel \<Rightarrow> 't parsed" where
  "parsedTree validate vModel =
     (case validate (js_or (formula vModel) (formula_raw vModel)) of
        Inr parsed \<Rightarrow> SdkTree parsed
      | Inl e \<Rightarrow> DataTypeOnly UNKNOWN)"

subsection \<open>The editor and the component state\<close>

text \<open>
  The editor widget (\<open>monaco-editor\<close>) is an external library. Its text model is read
  through four observations; the editor itself is an abstract value \<open>'e\<close> together
  with the operations the component calls on it. \<open>getModel\<close> and \<open>getPosition\<close>
  return \<open>null\<close> as \<open>None\<close>.
\<close>

record position =
  lineNumber :: int
  column :: int

record text_model =
  getValue :: string
  getOffsetAt :: "position \<Rightarrow> int"
  getLineContent :: "int \<Rightarrow> string"
  getWordAtPosition :: "position \<Rightarrow> string option"

record range =
  startLineNumber :: int
  startColumn :: int
  endLineNumber :: int
  endColumn :: int

record edit_operation =
  edit_range :: range
  edit_text :: string
  forceMoveMarkers :: bool

text \<open>
  The component registers a listener for content changes and one for changes of the
  cursor position. The editor calls them while an operation runs: \<open>executeEdits\<close>
  returns the editor after the edits and tells whether it called the content listener
  and whether it called the cursor listener; \<open>setPosition\<close> returns the editor and
  tells whether it called the cursor listener.
\<close>

record 'e monaco =
  getModel :: "'e \<Rightarrow> text_model option"
  getPosition :: "'e \<Rightarrow> position option"
  executeEdits :: "'e \<Rightarrow> string \<Rightarrow> edit_operation list \<Rightarrow> 'e \<times> bool \<times> bool"
  setPosition :: "'e \<Rightarrow> position \<Rightarrow> 'e \<times> bool"
  focus :: "'e \<Rightarrow> 'e"

datatype sug_type = Function | Column | Op

datatype UITypes = QrCode | Barcode | LinkToAnotherRecord | OtherUIType string

text \<open>The documentation fields of an entry of the formula table \<open>formulas[fn]\<close>.\<close>

record formula_doc =
  description :: string
  syntax_text :: string
  examples :: "string list"
  docsUrl :: "string option"

text \<open>
  A suggestion entry. \<open>doc\<close> carries the four documentation fields of a function entry,
  \<open>uidt\<close> the type of a column entry (its icon is looked up from it); a field that the
  object literal does not set is \<open>None\<close>, and an unset \<open>unsupported\<close> is falsy.
\<close>

record suggestion =
  sug_text :: string
  type :: sug_type
  doc :: "formula_doc option"
  uidt :: "UITypes option"
  unsupported :: bool

text \<open>
  The component's state. \<open>vModel_value\<close> holds the form model \<open>vModel.value\<close>.
\<close>

record 'e formula_state =
  editor :: "'e option"
  vModel_value :: formula_vmodel
  autocomplete :: bool
  suggestion :: "suggestion list"
  suggestionPreviewed :: "suggestion option"
  selected :: int
  priority :: int
  wordToComplete :: string
  showFunctionList :: bool

datatype js_error = TypeError

subsection \<open>isCursorBetweenParenthesis\<close>

definition count_char :: "char \<Rightarrow> string \<Rightarrow> nat" where
  "count_char ch s = length (filter (\<lambda>c. c = ch) s)"

definition isCursorBetweenParenthesis :: "'e monaco \<Rightarrow> 'e option \<Rightarrow> bool" where
  "isCursorBetweenParenthesis api ed =
     (case ed of
        None \<Rightarrow> False
      | Some e \<Rightarrow>
          (case getPosition api e of
             None \<Rightarrow> False
           | Some cursorPosition \<Rightarrow>
               (case getModel api e of
                  None \<Rightarrow> False
                | Some model \<Rightarrow>
                    (let line = getLineContent model (lineNumber cursorPosition)
                     in if line = [] then False
                        else (let cursorLine = js_substring line 0 (column cursorPosition - 1);
                                  openParenthesis = count_char CHR ''('' cursorLine;
                                  closeParenthesis = count_char CHR '')'' cursorLine
                              in openParenthesis > closeParenthesis)))))"

subsection \<open>suggestionsList, handleInput\<close>

record column_type =
  col_id :: "string option"
  title :: string
  col_uidt :: UITypes
  system :: bool

definition uiTypesNotSupportedInFormulas :: "UITypes list" where
  "uiTypesNotSupportedInFormulas = [QrCode, Barcode]"

text \<open>
  \<open>supportedColumns\<close>: the columns of the table (\<open>None\<close> when the meta or its columns
  are missing); \<open>isHiddenCol\<close> is the SDK's predicate, applied to the table meta.
\<close>

definition supportedColumns :: "(column_type \<Rightarrow> bool) \<Rightarrow> column_type list option \<Rightarrow> column_type list" where
  "supportedColumns isHiddenCol columns =
     (case columns of
        None \<Rightarrow> []
      | Some cols \<Rightarrow>
          filter (\<lambda>col. if col_uidt col \<in> set uiTypesNotSupportedInFormulas then False
                        else if isHiddenCol col then False
                        else True) cols)"

definition availableBinOps :: "string list" where
  "availableBinOps = [''+'', ''-'', ''*'', ''/'', ''>'', ''<'', ''=='', ''<='', ''>='', ''!='', ''&'']"

definition sortOrder :: "sug_type \<Rightarrow> int" where
  "sortOrder t = (case t of Column \<Rightarrow> 0 | Function \<Rightarrow> 1 | Op \<Rightarrow> 2)"

definition function_entry :: "(string \<Rightarrow> formula_doc) \<Rightarrow> string list \<Rightarrow> string \<Rightarrow> suggestion" where
  "function_entry formulas unsupportedFnList fn =
     \<lparr>sug_text = fn @ ''()'', type = Function, doc = Some (formulas fn), uidt = None,
      unsupported = (fn \<in> set unsupportedFnList)\<rparr>"

definition column_entry :: "column_type \<Rightarrow> suggestion" where
  "column_entry c =
     \<lparr>sug_text = title c, type = Column, doc = None, uidt = Some (col_uidt c), unsupported = False\<rparr>"

definition op_entry :: "string \<Rightarrow> suggestion" where
  "op_entry op = \<lparr>sug_text = op, type = Op, doc = None, uidt = None, unsupported = False\<rparr>"

text \<open>
  The list literal of \<open>suggestionsList\<close> before sorting. \<open>column_ref\<close> is the store's
  reference to the column being edited: \<open>None\<close> when the reference itself is missing,
  \<open>Some None\<close> when it holds no column.
\<close>

definition suggestion_entries ::
  "string list \<Rightarrow> (string \<Rightarrow> formula_doc) \<Rightarrow> string list \<Rightarrow> column_type list
     \<Rightarrow> column_type option option \<Rightarrow> suggestion list" where
  "suggestion_entries availableFunctions formulas unsupportedFnList supported column_ref =
     map (function_entry formulas unsupportedFnList) availableFunctions
     @ map column_entry
         (filter (\<lambda>c. if col_uidt c = LinkToAnotherRecord \<and> system c then False
                      else (case column_ref of
                              None \<Rightarrow> True
                            | Some v \<Rightarrow> (case v of None \<Rightarrow> None | Some cur \<Rightarrow> col_id cur) \<noteq> col_id c))
            supported)
     @ map op_entry availableBinOps"

definition unsupported_cmp :: "suggestion \<Rightarrow> suggestion \<Rightarrow> int" where
  "unsupported_cmp a b =
     (if unsupported a \<and> \<not> unsupported b then 1
      else if \<not> unsupported a \<and> unsupported b then - 1
      else 0)"

definition suggestionsList ::
  "string list \<Rightarrow> (string \<Rightarrow> formula_doc) \<Rightarrow> string list \<Rightarrow> column_type list
     \<Rightarrow> column_type option option \<Rightarrow> suggestion list" where
  "suggestionsList availableFunctions formulas unsupportedFnList supported column_ref =
     sort_js unsupported_cmp
       (suggestion_entries availableFunctions formulas unsupportedFnList supported column_ref)"

definition suggestedFormulas :: "'e formula_state \<Rightarrow> suggestion list" where
  "suggestedFormulas s = filter (\<lambda>x. type x \<noteq> Column) (suggestion s)"

definition variableList :: "'e formula_state \<Rightarrow> suggestion list" where
  "variableList s = filter (\<lambda>x. type x = Column) (suggestion s)"

definition getCurrentKeyword :: "'e monaco \<Rightarrow> 'e \<Rightarrow> string option" where
  "getCurrentKeyword api e =
     (case getModel api e of
        None \<Rightarrow> None
      | Some model \<Rightarrow>
          (case getPosition api e of
             None \<Rightarrow> None
           | Some position \<Rightarrow> getWordAtPosition model position))"

definition type_cmp :: "suggestion \<Rightarrow> suggestion \<Rightarrow> int" where
  "type_cmp x y = sortOrder (type x) - sortOrder (type y)"

definition column_first_cmp :: "suggestion \<Rightarrow> suggestion \<Rightarrow> int" where
  "column_first_cmp a b = (if type a = Column then - 1 else if type b = Column then 1 else 0)"

text \<open>
  \<open>handleInput\<close>. \<open>complete\<close> is the prefix lookup of the autocomplete tree built from
  \<open>suggestionsList\<close>. The comparison function of the first sort is a difference of
  ranks and so consistent. That of the second sort answers \<open>-1\<close> for two columns in
  either order and is not consistent: this sort is the engine's, \<open>engineSort\<close>.
\<close>

definition handleInput ::
  "'e monaco \<Rightarrow> ((suggestion \<Rightarrow> suggestion \<Rightarrow> int) \<Rightarrow> suggestion list \<Rightarrow> suggestion list)
     \<Rightarrow> (string \<Rightarrow> suggestion list) \<Rightarrow> 'e formula_state \<Rightarrow> 'e formula_state" where
  "handleInput api engineSort complete s =
     (case editor s of
        None \<Rightarrow> s
      | Some e \<Rightarrow>
          (case getModel api e of
             None \<Rightarrow> s
           | Some model \<Rightarrow>
               (case getPosition api e of
                  None \<Rightarrow> s
                | Some position \<Rightarrow>
                    (let txt = getValue model;
                         offset = getOffsetAt model position
                     in if isCursorInsideString txt offset
                        then s\<lparr>autocomplete := False, suggestion := []\<rparr>
                        else
                          (let s1 = (if \<not> isCursorBetweenParenthesis api (editor s) then s\<lparr>priority := 1\<rparr> else s);
                               s2 = s1\<lparr>selected := 0, suggestion := []\<rparr>;
                               query = (case getCurrentKeyword api e of None \<Rightarrow> [] | Some w \<Rightarrow> w);
                               parts = split_nonword query;
                               s3 = s2\<lparr>wordToComplete := pop_or_empty parts\<rparr>;
                               s4 = s3\<lparr>suggestion := sort_js type_cmp (complete (wordToComplete s3))\<rparr>;
                               s5 = (if isCursorBetweenParenthesis api (editor s4)
                                     then s4\<lparr>suggestion := engineSort column_first_cmp (suggestion s4),
                                             selected := 0, priority := - 1\<rparr>
                                     else if \<not> showFunctionList s4 then s4\<lparr>showFunctionList := True\<rparr>
                                     else s4)
                           in s5\<lparr>autocomplete := (suggestion s5 \<noteq> [])\<rparr>)))))"

subsection \<open>findEnclosingFunction\<close>

text \<open>
  The regular expression \<open>/\b(?<!['"])(\w+)\s*\(/g\<close> at position \<open>p\<close>: a word
  character that begins a word and is not preceded by a quote, the whole run of word
  characters, any white space, and an opening parenthesis. The result is the captured
  name and the index after the parenthesis (\<open>lastIndex\<close>). Shorter captures cannot
  match, since the character after them is a word character.
\<close>

definition formula_match_at :: "string \<Rightarrow> nat \<Rightarrow> (string \<times> nat) option" where
  "formula_match_at txt p =
     (if p < length txt \<and> is_word_char (txt ! p)
         \<and> (p = 0 \<or> (\<not> is_word_char (txt ! (p - 1)) \<and> txt ! (p - 1) \<noteq> squote \<and> txt ! (p - 1) \<noteq> dquote))
      then (let name = takeWhile is_word_char (drop p txt);
                after = drop (p + length name) txt;
                ws = takeWhile is_space_char after
            in (case drop (length ws) after of
                  [] \<Rightarrow> None
                | c # _ \<Rightarrow> if c = CHR ''('' then Some (name, p + length name + length ws + 1) else None))
      else None)"

text \<open>\<open>formulaRegex.exec(text)\<close> with the given \<open>lastIndex\<close>: the first match at or after it.\<close>

definition formulaRegex_exec :: "string \<Rightarrow> nat \<Rightarrow> (nat \<times> string \<times> nat) option" where
  "formulaRegex_exec txt lastIndex =
     (case List.find (\<lambda>p. formula_match_at txt p \<noteq> None) [lastIndex..<length txt] of
        None \<Rightarrow> None
      | Some p \<Rightarrow> map_option (\<lambda>(name, li). (p, name, li)) (formula_match_at txt p))"

text \<open>
  \<open>quoteRegex.exec(text)\<close>, for \<open>/"/g\<close>: the index of the first double quote at or
  after \<open>lastIndex\<close>.
\<close>

definition quoteRegex_exec :: "string \<Rightarrow> nat \<Rightarrow> nat option" where
  "quoteRegex_exec txt lastIndex = List.find (\<lambda>q. txt ! q = dquote) [lastIndex..<length txt]"

text \<open>
  The quote loop at the end of the body of the outer loop. It returns \<open>inQuote\<close> and the
  \<open>lastIndex\<close> of the quote expression: reset to 0 when no quote is left, and past the
  quote that ended the loop otherwise.
\<close>

function quote_loop :: "string \<Rightarrow> nat \<Rightarrow> bool \<Rightarrow> nat \<Rightarrow> bool \<times> nat" where
  "quote_loop txt matchIndex inQuote qLast =
     (case quoteRegex_exec txt qLast of
        None \<Rightarrow> (inQuote, 0)
      | Some q \<Rightarrow>
          if q < matchIndex
          then quote_loop txt matchIndex (\<not> inQuote) (q + 1)
          else (inQuote, q + 1))"
  by pat_completeness auto

lemma quoteRegex_exec_range: "quoteRegex_exec txt k = Some q \<Longrightarrow> k \<le> q \<and> q < length txt"
  unfolding quoteRegex_exec_def by (auto simp: find_Some_iff)

termination quote_loop
  by (relation "measure (\<lambda>(txt, matchIndex, inQuote, qLast). length txt - qLast)")
     (auto dest: quoteRegex_exec_range)

declare quote_loop.simps [simp del]

record function_data =
  fn_name :: string
  fn_start :: int
  fn_end :: int

text \<open>The three branches of the child value handling, on \<open>(childValueStart, childValueEnd)\<close>.\<close>

definition child_value_step :: "char \<Rightarrow> nat \<Rightarrow> int \<times> int \<Rightarrow> int \<times> int" where
  "child_value_step c i st =
     (case st of (childValueStart, childValueEnd) \<Rightarrow>
        if childValueStart = - 1 \<and> c \<in> {CHR ''('', CHR '','', CHR ''{''} then (int i, childValueEnd)
        else if childValueStart \<noteq> - 1 \<and> c \<in> {CHR ''('', CHR '','', CHR ''{''} then (int i, childValueEnd)
        else if childValueStart \<noteq> - 1 \<and> c \<in> {CHR ''}'', CHR '','', CHR '')''} then (- 1, int i)
        else (childValueStart, childValueEnd))"

text \<open>
  The inner \<open>for\<close> loop from index \<open>i\<close>. It returns \<open>functionData.end\<close>,
  \<open>childValueEnd\<close>, and the index at which the branch for nested functions was
  entered, if it was.
\<close>

function scan_arguments :: "string \<Rightarrow> int \<Rightarrow> nat \<Rightarrow> int \<Rightarrow> int \<times> int \<Rightarrow> int \<Rightarrow> int \<times> int \<times> nat option" where
  "scan_arguments txt offset i parenBalance child fnEnd =
     (if i < length txt
      then (let c = txt ! i;
                parenBalance' = (if c = CHR ''('' then parenBalance + 1
                                 else if c = CHR '')'' then parenBalance - 1
                                 else parenBalance)
            in if c = CHR '')'' \<and> parenBalance' = 0 then (int i + 1, snd child, None)
               else (let child' = child_value_step c i child
                     in if int i \<ge> offset
                        then (if parenBalance' > 0 then (int i + 1, snd child', None)
                              else (fnEnd, snd child', Some i))
                        else scan_arguments txt offset (i + 1) parenBalance' child' fnEnd))
      else (fnEnd, snd child, None))"
  by pat_completeness auto
termination
  by (relation "measure (\<lambda>(txt, offset, i, parenBalance, child, fnEnd). length txt - i)") auto

declare scan_arguments.simps [simp del]

text \<open>The filter and the result after the outer loop.\<close>

definition enclosing_result :: "int \<Rightarrow> function_data list \<Rightarrow> string option" where
  "enclosing_result offset functionStack =
     (let enclosingFunctions = filter (\<lambda>func. fn_start func \<le> offset \<and> fn_end func \<ge> offset) functionStack
      in if length enclosingFunctions > 0 then Some (fn_name (last enclosingFunctions)) else None)"

text \<open>\<open>If child value ended before offset, use child value end as function end\<close>\<close>

definition cut_at_child_value :: "int \<Rightarrow> int \<Rightarrow> function_data \<Rightarrow> function_data" where
  "cut_at_child_value offset childValueEnd functionData =
     (if childValueEnd \<noteq> - 1 \<and> childValueEnd < offset
      then functionData\<lparr>fn_end := childValueEnd + 1\<rparr>
      else functionData)"

text \<open>
  The outer \<open>while\<close> loop, on \<open>formulaRegex.lastIndex\<close>, \<open>functionStack\<close>, \<open>inQuote\<close>
  and \<open>quoteRegex.lastIndex\<close>. In the branch for nested functions the same object is
  pushed twice, and the cut after the loop changes both entries.
\<close>

function enclosing_loop :: "string \<Rightarrow> int \<Rightarrow> nat \<Rightarrow> function_data list \<Rightarrow> bool \<Rightarrow> nat \<Rightarrow> string option" where
  "enclosing_loop txt offset lastIndex functionStack inQuote qLast =
     (case formulaRegex_exec txt lastIndex of
        None \<Rightarrow> enclosing_result offset functionStack
      | Some (index, name, lastIndex') \<Rightarrow>
          if int index > offset then enclosing_result offset functionStack
          else if \<not> inQuote
          then (let functionData = \<lparr>fn_name = name, fn_start = int index, fn_end = int lastIndex'\<rparr>
                in case scan_arguments txt offset lastIndex' 1 (- 1, - 1) (int lastIndex') of
                     (fnEnd, childValueEnd, nested) \<Rightarrow>
                       (let functionData' = cut_at_child_value offset childValueEnd (functionData\<lparr>fn_end := fnEnd\<rparr>)
                        in case nested of
                             None \<Rightarrow>
                               (case quote_loop txt index inQuote qLast of
                                  (inQuote', qLast') \<Rightarrow>
                                    enclosing_loop txt offset lastIndex' (functionStack @ [functionData']) inQuote' qLast')
                           | Some i \<Rightarrow>
                               (case enclosing_loop
                                       (js_substring txt (int index + int (length name) + 1) (int i))
                                       (offset - int index - int (length name) - 1) 0 [] False 0 of
                                  Some nestedFunction \<Rightarrow>
                                    if nestedFunction \<noteq> [] then Some nestedFunction
                                    else (case quote_loop txt index inQuote qLast of
                                            (inQuote', qLast') \<Rightarrow>
                                              enclosing_loop txt offset lastIndex'
                                                (functionStack @ [functionData', functionData']) inQuote' qLast')
                                | None \<Rightarrow>
                                    (case quote_loop txt index inQuote qLast of
                                       (inQuote', qLast') \<Rightarrow>
                                         enclosing_loop txt offset lastIndex'
                                           (functionStack @ [functionData', functionData']) inQuote' qLast'))))
          else (case quote_loop txt index inQuote qLast of
                  (inQuote', qLast') \<Rightarrow> enclosing_loop txt offset lastIndex' functionStack inQuote' qLast'))"
  by pat_completeness auto

text \<open>
  Two facts for the termination of the loop: a match lies at or after \<open>lastIndex\<close> and
  moves it forward, and the inner loop, started with a positive balance, never enters
  the branch for nested functions.
\<close>

lemma formula_match_at_range:
  "formula_match_at txt p = Some (name, li) \<Longrightarrow> p < length txt \<and> p < li \<and> li \<le> length txt"
proof -
  assume m: "formula_match_at txt p = Some (name, li)"
  define nm where "nm = takeWhile is_word_char (drop p txt)"
  define after where "after = drop (p + length nm) txt"
  define ws where "ws = takeWhile is_space_char after"
  from m have p: "p < length txt"
    by (auto simp: formula_match_at_def split: if_splits)
  from m obtain c rest where d: "drop (length ws) after = c # rest" and li: "li = p + length nm + length ws + 1"
    by (auto simp: formula_match_at_def Let_def nm_def after_def ws_def split: if_splits list.splits)
  have "length (drop (length ws) after) = length txt - (p + length nm) - length ws"
    by (simp add: after_def)
  with d have "p + length nm + length ws < length txt"
    by auto
  with li p show ?thesis by simp
qed

lemma formulaRegex_exec_range:
  "formulaRegex_exec txt k = Some (p, name, li) \<Longrightarrow> k \<le> p \<and> p < length txt \<and> p < li \<and> li \<le> length txt"
  unfolding formulaRegex_exec_def
  by (auto simp: find_Some_iff split: option.splits dest!: formula_match_at_range)

lemma scan_arguments_no_nested:
  "1 \<le> parenBalance \<Longrightarrow> snd (snd (scan_arguments tx offset i parenBalance child fnEnd)) = None"
proof (induction tx offset i parenBalance child fnEnd rule: scan_arguments.induct)
  case (1 tx offset i parenBalance child fnEnd)
  show ?case
  proof (cases "i < length tx")
    case False
    then show ?thesis by (subst scan_arguments.simps) simp
  next
    case True
    define c where "c = tx ! i"
    define b' where "b' = (if c = CHR ''('' then parenBalance + 1 else if c = CHR '')'' then parenBalance - 1 else parenBalance)"
    have unf: "scan_arguments tx offset i parenBalance child fnEnd =
       (if c = CHR '')'' \<and> b' = 0 then (int i + 1, snd child, None)
               else (let child' = child_value_step c i child
                     in if int i \<ge> offset
                        then (if b' > 0 then (int i + 1, snd child', None)
                              else (fnEnd, snd child', Some i))
                        else scan_arguments tx offset (i + 1) b' child' fnEnd))"
      using True by (subst scan_arguments.simps) (simp only: c_def b'_def Let_def if_True)
    show ?thesis
    proof (cases "c = CHR '')'' \<and> b' = 0")
      case True
      then show ?thesis unfolding unf by simp
    next
      case nz: False
      with "1.prems" have pos: "1 \<le> b'"
        by (auto simp: b'_def split: if_splits)
      show ?thesis
      proof (cases "int i \<ge> offset")
        case True
        with nz pos show ?thesis unfolding unf by (simp add: Let_def)
      next
        case False
        from "1.IH"[OF \<open>i < length tx\<close> c_def b'_def nz refl False pos]
        have "snd (snd (scan_arguments tx offset (i + 1) b' (child_value_step c i child) fnEnd)) = None" .
        with nz False show ?thesis unfolding unf by (simp add: Let_def)
      qed
    qed
  qed
qed

lemma enclosing_loop_measure_step:
  "formulaRegex_exec tx lastIndex = Some x2 \<Longrightarrow> (x, y) = x2 \<Longrightarrow> (xa, ya) = y \<Longrightarrow>
   ((tx, offset, ya, stack', inQuote', qLast'), tx, offset, lastIndex, stack, inQuote, qLast)
     \<in> measures [\<lambda>(tx, offset, lastIndex, functionStack, inQuote, qLast). length tx,
                  \<lambda>(tx, offset, lastIndex, functionStack, inQuote, qLast). length tx - lastIndex]"
proof -
  assume "formulaRegex_exec tx lastIndex = Some x2" "(x, y) = x2" "(xa, ya) = y"
  then have "formulaRegex_exec tx lastIndex = Some (x, xa, ya)" by simp
  from formulaRegex_exec_range[OF this] show ?thesis by auto
qed

lemma enclosing_loop_nested_dead:
  "(xc, yb) = scan_arguments tx offset ya 1 (- 1, - 1) (int ya) \<Longrightarrow> (xd, yc) = yb \<Longrightarrow> yc = Some x2a \<Longrightarrow> False"
proof -
  assume a: "(xc, yb) = scan_arguments tx offset ya 1 (- 1, - 1) (int ya)" "(xd, yc) = yb" "yc = Some x2a"
  have "snd (snd (scan_arguments tx offset ya 1 (- 1, - 1) (int ya))) = None"
    by (rule scan_arguments_no_nested) simp
  with a(1)[symmetric] a(2)[symmetric] a(3) show False by simp
qed

termination enclosing_loop
  apply (relation "measures [\<lambda>(tx, offset, lastIndex, functionStack, inQuote, qLast). length tx,
                           \<lambda>(tx, offset, lastIndex, functionStack, inQuote, qLast). length tx - lastIndex]")
       apply simp
      apply (erule (2) enclosing_loop_measure_step)
     apply (erule (2) enclosing_loop_nested_dead[THEN FalseE])
    apply (erule (2) enclosing_loop_nested_dead[THEN FalseE])
   apply (erule (2) enclosing_loop_nested_dead[THEN FalseE])
  apply (erule (2) enclosing_loop_measure_step)
  done

declare enclosing_loop.simps [simp del]

definition findEnclosingFunction :: "string \<Rightarrow> int \<Rightarrow> string option" where
  "findEnclosingFunction txt offset = enclosing_loop txt offset 0 [] False 0"

subsection \<open>The editor's listeners\<close>

text \<open>
  The listener for content changes, registered in \<open>onMounted\<close>. It stores the editor's
  text in the form model and then asks for the debounced \<open>handleInput\<close>; the debounced
  call runs after a delay, when the function that made the edit has long returned, and is
  a step of its own. \<open>editor.getValue()\<close> is the empty text when there is no model.
\<close>

definition onDidChangeModelContent :: "'e monaco \<Rightarrow> 'e formula_state \<Rightarrow> 'e formula_state" where
  "onDidChangeModelContent api s =
     (case editor s of
        None \<Rightarrow> s
      | Some e \<Rightarrow>
          s\<lparr>vModel_value := (vModel_value s)\<lparr>formula_raw :=
                Some (case getModel api e of None \<Rightarrow> [] | Some model \<Rightarrow> getValue model)\<rparr>\<rparr>)"

text \<open>
  The listener for changes of the cursor position. \<open>sugList\<close> is the value of
  \<open>suggestionsList\<close>; the template literal turns a \<open>null\<close> result of
  \<open>findEnclosingFunction\<close> into the text \<open>null\<close>.
\<close>

definition onDidChangeCursorPosition ::
  "'e monaco \<Rightarrow> ((suggestion \<Rightarrow> suggestion \<Rightarrow> int) \<Rightarrow> suggestion list \<Rightarrow> suggestion list)
     \<Rightarrow> (string \<Rightarrow> suggestion list) \<Rightarrow> suggestion list \<Rightarrow> 'e formula_state \<Rightarrow> 'e formula_state" where
  "onDidChangeCursorPosition api engineSort complete sugList s =
     (case editor s of
        None \<Rightarrow> s
      | Some e \<Rightarrow>
          (case getPosition api e of
             None \<Rightarrow> s
           | Some position \<Rightarrow>
               (case getModel api e of
                  None \<Rightarrow> s
                | Some model \<Rightarrow>
                    (let txt = getValue model;
                         offset = getOffsetAt model position;
                         s1 = (if isCursorInsideString txt offset
                               then s\<lparr>autocomplete := False, suggestion := []\<rparr>
                               else handleInput api engineSort complete s);
                         lastFunction = findEnclosingFunction txt offset
                     in s1\<lparr>suggestionPreviewed :=
                            find (\<lambda>x. sug_text x
                                        = (case lastFunction of None \<Rightarrow> ''null'' | Some n \<Rightarrow> n) @ ''()'')
                              sugList\<rparr>))))"

text \<open>
  \<open>editor.executeEdits('', edits)\<close> and \<open>editor.setPosition(p)\<close> as the component sees
  them: the editor changes, and the listeners the editor calls run on the component's
  state before the call returns, the content listener first.
\<close>

definition call_executeEdits ::
  "'e monaco \<Rightarrow> ((suggestion \<Rightarrow> suggestion \<Rightarrow> int) \<Rightarrow> suggestion list \<Rightarrow> suggestion list)
     \<Rightarrow> (string \<Rightarrow> suggestion list) \<Rightarrow> suggestion list \<Rightarrow> 'e \<Rightarrow> edit_operation list
     \<Rightarrow> 'e formula_state \<Rightarrow> 'e formula_state" where
  "call_executeEdits api engineSort complete sugList e edits s =
     (case executeEdits api e [] edits of
        (e1, contentChanged, cursorChanged) \<Rightarrow>
          (let s1 = s\<lparr>editor := Some e1\<rparr>;
               s2 = (if contentChanged then onDidChangeModelContent api s1 else s1)
           in if cursorChanged then onDidChangeCursorPosition api engineSort complete sugList s2 else s2))"

definition call_setPosition ::
  "'e monaco \<Rightarrow> ((suggestion \<Rightarrow> suggestion \<Rightarrow> int) \<Rightarrow> suggestion list \<Rightarrow> suggestion list)
     \<Rightarrow> (string \<Rightarrow> suggestion list) \<Rightarrow> suggestion list \<Rightarrow> 'e \<Rightarrow> position
     \<Rightarrow> 'e formula_state \<Rightarrow> 'e formula_state" where
  "call_setPosition api engineSort complete sugList e p s =
     (case setPosition api e p of
        (e1, cursorChanged) \<Rightarrow>
          (let s1 = s\<lparr>editor := Some e1\<rparr>
           in if cursorChanged then onDidChangeCursorPosition api engineSort complete sugList s1 else s1))"

subsection \<open>appendText, selectText\<close>

text \<open>
  \<open>insertStringAtPosition\<close>. Its editor argument is the component's editor, whose
  current value is in the state.
\<close>

definition insertStringAtPosition ::
  "'e monaco \<Rightarrow> ((suggestion \<Rightarrow> suggestion \<Rightarrow> int) \<Rightarrow> suggestion list \<Rightarrow> suggestion list)
     \<Rightarrow> (string \<Rightarrow> suggestion list) \<Rightarrow> suggestion list \<Rightarrow> string \<Rightarrow> bool
     \<Rightarrow> 'e formula_state \<Rightarrow> 'e formula_state" where
  "insertStringAtPosition api engineSort complete sugList txt skipCursorMove s =
     (case editor s of
        None \<Rightarrow> s
      | Some e \<Rightarrow>
          (case getPosition api e of
             None \<Rightarrow> s
           | Some position \<Rightarrow>
               (let rng = \<lparr>startLineNumber = lineNumber position, startColumn = column position,
                            endLineNumber = lineNumber position, endColumn = column position\<rparr>;
                    s1 = call_executeEdits api engineSort complete sugList e
                           [\<lparr>edit_range = rng, edit_text = txt, forceMoveMarkers = True\<rparr>] s;
                    s2 = (if \<not> skipCursorMove
                          then (case editor s1 of
                                  None \<Rightarrow> s1
                                | Some e1 \<Rightarrow>
                                    call_setPosition api engineSort complete sugList e1
                                      \<lparr>lineNumber = lineNumber position,
                                       column = column position + int (length txt) - 1\<rparr> s1)
                          else s1)
                in s2\<lparr>editor := map_option (focus api) (editor s2)\<rparr>)))"

text \<open>
  \<open>appendText\<close>. The argument is \<open>None\<close> when the caller indexes past the end of a
  list; a call on an editor that is not there yet throws. The length of the word to
  complete is read before the first edit, and the assignments behind the edits overwrite
  what the listeners have stored in \<open>autocomplete\<close>, \<open>wordToComplete\<close> and
  \<open>suggestion\<close>.
\<close>

definition appendText ::
  "'e monaco \<Rightarrow> ((suggestion \<Rightarrow> suggestion \<Rightarrow> int) \<Rightarrow> suggestion list \<Rightarrow> suggestion list)
     \<Rightarrow> (string \<Rightarrow> suggestion list) \<Rightarrow> suggestion list \<Rightarrow> suggestion option
     \<Rightarrow> 'e formula_state \<Rightarrow> js_error + 'e formula_state" where
  "appendText api engineSort complete sugList item s =
     (let len = int (length (wordToComplete s))
      in case item of
           None \<Rightarrow> Inr s
         | Some it \<Rightarrow>
             if sug_text it = [] then Inr s
             else
               (case editor s of
                  None \<Rightarrow> Inl TypeError
                | Some e \<Rightarrow>
                    (case getPosition api e of
                       None \<Rightarrow> Inr s
                     | Some position \<Rightarrow>
                         (let newColumn = max 1 (column position - len);
                              rng = \<lparr>startLineNumber = lineNumber position, startColumn = newColumn,
                                      endLineNumber = lineNumber position, endColumn = column position\<rparr>;
                              s1 = call_executeEdits api engineSort complete sugList e
                                     [\<lparr>edit_range = rng, edit_text = [], forceMoveMarkers = True\<rparr>] s;
                              s2 = (if type it = Function
                                    then insertStringAtPosition api engineSort complete sugList (sug_text it) False s1
                                    else if type it = Column
                                    then insertStringAtPosition api engineSort complete sugList
                                           (''{'' @ sug_text it @ ''}'') True s1
                                    else insertStringAtPosition api engineSort complete sugList (sug_text it) True s1);
                              s3 = s2\<lparr>autocomplete := False, wordToComplete := []\<rparr>
                          in if type it = Function \<or> type it = Op
                             then Inr (s3\<lparr>suggestion := filter (\<lambda>f. type f = Column) sugList\<rparr>)
                             else Inr (s3\<lparr>suggestion := sugList\<rparr>)))))"

text \<open>Reading \<open>xs[i]\<close>: \<open>undefined\<close> outside the list.\<close>

definition js_index :: "'a list \<Rightarrow> int \<Rightarrow> 'a option" where
  "js_index xs i = (if 0 \<le> i \<and> i < int (length xs) then Some (xs ! nat i) else None)"

definition reset_selected :: "js_error + 'e formula_state \<Rightarrow> js_error + 'e formula_state" where
  "reset_selected r = (case r of Inl err \<Rightarrow> Inl err | Inr s \<Rightarrow> Inr (s\<lparr>selected := 0\<rparr>))"

definition selectText ::
  "'e monaco \<Rightarrow> ((suggestion \<Rightarrow> suggestion \<Rightarrow> int) \<Rightarrow> suggestion list \<Rightarrow> suggestion list)
     \<Rightarrow> (string \<Rightarrow> suggestion list) \<Rightarrow> suggestion list
     \<Rightarrow> 'e formula_state \<Rightarrow> js_error + 'e formula_state" where
  "selectText api engineSort complete sugList s =
     (if selected s > - 1 \<and> selected s < int (length sugList)
      then (if selected s < int (length (suggestedFormulas s))
            then (case js_index (suggestedFormulas s) (selected s) of
                    None \<Rightarrow> Inl TypeError
                  | Some f \<Rightarrow>
                      if unsupported f then Inr s
                      else reset_selected (appendText api engineSort complete sugList (Some f) s))
            else reset_selected
                   (appendText api engineSort complete sugList
                      (js_index (variableList s) (selected s + int (length (suggestedFormulas s)))) s))
      else Inr (s\<lparr>selected := 0\<rparr>))"

section \<open>Collaborator tables\<close>

subsection \<open>Filtering collaborators\<close>














subsection \<open>Roles a user may assign\<close>

text \<open>
  A roles object maps role names to flags; \<open>Object.keys(roles).includes(role)\<close> asks
  whether the name is a key. The ordered role lists are constants of the SDK and are
  parameters here.
\<close>

type_synonym roles = "string \<rightharpoonup> bool"

definition has_role :: "roles option \<Rightarrow> string \<Rightarrow> bool" where
  "has_role rs role = (case rs of None \<Rightarrow> False | Some m \<Rightarrow> m role \<noteq> None)"

definition accessibleRoles_workspace :: "string list \<Rightarrow> roles option \<Rightarrow> string list" where
  "accessibleRoles_workspace OrderedWorkspaceRoles workspaceRoles =
     (let currentRoleIndex = findIndex (has_role workspaceRoles) OrderedWorkspaceRoles
      in if currentRoleIndex = - 1 then []
         else filter (\<lambda>r. r \<noteq> []) (js_slice OrderedWorkspaceRoles (currentRoleIndex + 1)))"

definition isSuper :: "string \<Rightarrow> roles option \<Rightarrow> bool" where
  "isSuper SUPER_ADMIN orgRoles = (case orgRoles of None \<Rightarrow> False | Some m \<Rightarrow> m SUPER_ADMIN = Some True)"

text \<open>
  The assignment in \<open>onMounted\<close> of the base access settings; the last argument is the
  value \<open>accessibleRoles\<close> holds before, initially the empty list.
\<close>

definition accessibleRoles_base :: "string list \<Rightarrow> roles option \<Rightarrow> bool \<Rightarrow> string list \<Rightarrow> string list" where
  "accessibleRoles_base OrderedProjectRoles baseRoles super accessibleRoles =
     (let currentRoleIndex = findIndex (has_role baseRoles) OrderedProjectRoles
      in if super then js_slice OrderedProjectRoles 1
         else if currentRoleIndex \<noteq> - 1 then js_slice OrderedProjectRoles (currentRoleIndex + 1)
         else accessibleRoles)"

section \<open>A one-line editor for worked examples\<close>

text \<open>
  A small instance of the editor interface, used to run the definitions on concrete
  inputs: one line of text and a cursor column. An edit replaces the columns of its range
  and moves a cursor at or behind the range by the change in length. The content listener
  is called when an operation has changed the text, the cursor listener when it has
  changed the column.
\<close>

record line_editor =
  le_text :: string
  le_column :: int

definition word_at :: "string \<Rightarrow> int \<Rightarrow> string option" where
  "word_at line col =
     (let before = rev (takeWhile is_word_char (rev (take (nat (col - 1)) line)));
          after = takeWhile is_word_char (drop (nat (col - 1)) line)
      in if before @ after = [] then None else Some (before @ after))"

definition line_model :: "line_editor \<Rightarrow> text_model" where
  "line_model e =
     \<lparr>getValue = le_text e,
      getOffsetAt = (\<lambda>p. column p - 1),
      getLineContent = (\<lambda>n. le_text e),
      getWordAtPosition = (\<lambda>p. word_at (le_text e) (column p))\<rparr>"

definition apply_edit :: "edit_operation \<Rightarrow> line_editor \<Rightarrow> line_editor" where
  "apply_edit ed e =
     (let a = nat (startColumn (edit_range ed) - 1);
          b = nat (endColumn (edit_range ed) - 1)
      in \<lparr>le_text = take a (le_text e) @ edit_text ed @ drop b (le_text e),
          le_column = (if le_column e \<ge> endColumn (edit_range ed)
                       then le_column e + int (length (edit_text ed)) - (int b - int a)
                       else le_column e)\<rparr>)"

definition line_api :: "line_editor monaco" where
  "line_api =
     \<lparr>getModel = (\<lambda>e. Some (line_model e)),
      getPosition = (\<lambda>e. Some \<lparr>lineNumber = 1, column = le_column e\<rparr>),
      executeEdits = (\<lambda>e source eds.
         (fold apply_edit eds e,
          le_text (fold apply_edit eds e) \<noteq> le_text e,
          le_column (fold apply_edit eds e) \<noteq> le_column e)),
      setPosition = (\<lambda>e p. (e\<lparr>le_column := column p\<rparr>, column p \<noteq> le_column e)),
      focus = (\<lambda>e. e)\<rparr>"

definition initial_state :: "'e option \<Rightarrow> 'e formula_state" where
  "initial_state ed =
     \<lparr>editor = ed, vModel_value = \<lparr>formula = None, formula_raw = None\<rparr>,
      autocomplete = False, suggestion = [], suggestionPreviewed = None,
      selected = 0, priority = 0, wordToComplete = [], showFunctionList = True\<rparr>"

definition quoted_editor :: line_editor where
  "quoted_editor = \<lparr>le_text = ''CONCAT('' @ [dquote] @ ''it's'', le_column = 13\<rparr>"


text \<open>The two flags of the loop as one state of the scan of the specification.\<close>

definition quote_abs :: "bool \<Rightarrow> bool \<Rightarrow> quote_state" where
  "quote_abs s d = (if s then InSingle else if d then InDouble else Outside)"

definition nested_call_editor :: line_editor where
  "nested_call_editor = \<lparr>le_text = ''IF(SUM(1), '', le_column = 12\<rparr>"

definition example_formulas :: "string \<Rightarrow> formula_doc" where
  "example_formulas fn = \<lparr>description = fn, syntax_text = fn @ ''(...)'', examples = [], docsUrl = None\<rparr>"

definition example_columns :: "column_type list" where
  "example_columns =
     [\<lparr>col_id = Some ''c1'', title = ''Title'', col_uidt = OtherUIType ''SingleLineText'', system = False\<rparr>,
      \<lparr>col_id = Some ''c2'', title = ''Links'', col_uidt = LinkToAnotherRecord, system = True\<rparr>]"

definition example_roles :: "string list" where
  "example_roles = [''owner'', ''creator'', ''editor'', ''commenter'', ''viewer'', ''no-access'']"

text \<open>An SDK stand-in for the worked examples: it accepts a formula exactly when its parentheses pair up.\<close>

definition example_validate :: "string \<Rightarrow> unit sdk_error + nat" where
  "example_validate f =
     (if count_char CHR ''('' f = count_char CHR '')'' f then Inr (length f)
      else if count_char CHR ''('' f > count_char CHR '')'' f
      then Inl (FormulaError (Some ''msg.formula.parenthesisMissing'') () ''Missing parenthesis'')
      else Inl (OtherError ''Unexpected )''))"

definition example_t :: "string \<Rightarrow> unit \<Rightarrow> string" where
  "example_t key x = ''<'' @ key @ ''>''"

text \<open>
  Stand-ins for the worked examples: a suggestion list and a prefix lookup in place of the
  autocomplete tree.
\<close>

definition example_suggestions :: "suggestion list" where
  "example_suggestions =
     [function_entry example_formulas [''XOR''] ''SUM'', function_entry example_formulas [''XOR''] ''XOR'',
      op_entry ''+'', column_entry (example_columns ! 0), function_entry example_formulas [''XOR''] ''TODAY'']"

definition example_complete :: "string \<Rightarrow> suggestion list" where
  "example_complete w = filter (\<lambda>x. prefix w (sug_text x)) example_suggestions"



fun insert_leftward :: "('a \<Rightarrow> 'a \<Rightarrow> int) \<Rightarrow> 'a \<Rightarrow> 'a list \<Rightarrow> 'a list" where
  "insert_leftward cmp x [] = [x]"
| "insert_leftward cmp x (y # ys) = (if cmp x y < 0 then y # insert_leftward cmp x ys else x # y # ys)"

text \<open>The sorted part is held with its last element first.\<close>

definition example_engineSort :: "('a \<Rightarrow> 'a \<Rightarrow> int) \<Rightarrow> 'a list \<Rightarrow> 'a list" where
  "example_engineSort cmp xs = rev (fold (insert_leftward cmp) xs [])"



definition completing_editor :: line_editor where
  "completing_editor = \<lparr>le_text = ''1 + X'', le_column = 6\<rparr>"

text \<open>The state after typing \<open>X\<close>: the unsupported \<open>XOR()\<close> is the only suggestion and is selected.\<close>

definition completing_state :: "line_editor formula_state" where
  "completing_state =
     \<lparr>editor = Some completing_editor, vModel_value = \<lparr>formula = None, formula_raw = Some ''1 + X''\<rparr>,
      autocomplete = True,
      suggestion = [function_entry example_formulas [''XOR''] ''XOR''], suggestionPreviewed = None,
      selected = 0, priority = 1, wordToComplete = ''X'', showFunctionList = True\<rparr>"





section \<open>The specification's reading of case-insensitive search\<close>








section \<open>The specification's reading of the enclosing function\<close>

text \<open>
  The balancing parenthesis of a call: the index, counted from the start of the list, of
  the first closing parenthesis met at depth 0.
\<close>

fun balancing :: "nat \<Rightarrow> string \<Rightarrow> nat option" where
  "balancing depth [] = None"
| "balancing depth (c # cs) =
     (if c = CHR ''('' then map_option Suc (balancing (Suc depth) cs)
      else if c = CHR '')'' then (case depth of 0 \<Rightarrow> Some 0 | Suc d \<Rightarrow> map_option Suc (balancing d cs))
      else map_option Suc (balancing depth cs))"

definition closing_paren :: "string \<Rightarrow> nat \<Rightarrow> nat option" where
  "closing_paren txt li = map_option (\<lambda>k. li + k) (balancing 0 (drop li txt))"

text \<open>
  A call that starts at \<open>p\<close> and whose arguments start at \<open>li\<close> encloses the offset when
  it starts at or before the offset and its balancing parenthesis, if it has one, is not
  before the character in front of the offset.
\<close>

definition call_encloses :: "string \<Rightarrow> int \<Rightarrow> nat \<Rightarrow> nat \<Rightarrow> bool" where
  "call_encloses txt offset p li =
     (int p \<le> offset \<and> (case closing_paren txt li of None \<Rightarrow> True | Some c \<Rightarrow> offset \<le> int c + 1))"

definition inside_double_quotes :: "string \<Rightarrow> nat \<Rightarrow> bool" where
  "inside_double_quotes txt p = odd (count_char dquote (take p txt))"

definition function_calls :: "string \<Rightarrow> (nat \<times> string \<times> nat) list" where
  "function_calls txt =
     List.map_filter (\<lambda>p. map_option (\<lambda>(name, li). (p, name, li)) (formula_match_at txt p)) [0..<length txt]"

text \<open>
  The claim as written: the name of the last call, outside double quotes, that encloses
  the offset; calls that enclose the same offset are nested, so the last one is the
  innermost.
\<close>

definition innermost_enclosing_call :: "string \<Rightarrow> int \<Rightarrow> string option" where
  "innermost_enclosing_call txt offset =
     (case filter (\<lambda>(p, name, li). \<not> inside_double_quotes txt p \<and> call_encloses txt offset p li)
             (function_calls txt) of
        [] \<Rightarrow> None
      | c # cs \<Rightarrow> Some (fst (snd (last (c # cs)))))"

text \<open>The entry that the outer loop pushes for a match.\<close>

definition recorded :: "string \<Rightarrow> int \<Rightarrow> nat \<Rightarrow> string \<Rightarrow> nat \<Rightarrow> function_data" where
  "recorded txt offset p name li =
     (case scan_arguments txt offset li 1 (- 1, - 1) (int li) of
        (fnEnd, childValueEnd, nested) \<Rightarrow>
          cut_at_child_value offset childValueEnd \<lparr>fn_name = name, fn_start = int p, fn_end = fnEnd\<rparr>)"

text \<open>An entry of the function stack that belongs to a call and, if its span reaches the offset, to a call not closed before the offset.\<close>

definition sound_entry :: "string \<Rightarrow> int \<Rightarrow> function_data \<Rightarrow> bool" where
  "sound_entry txt offset fd =
     (\<exists>p li. formula_match_at txt p = Some (fn_name fd, li) \<and> fn_start fd = int p
        \<and> (offset \<le> fn_end fd \<longrightarrow> (case closing_paren txt li of None \<Rightarrow> True | Some c \<Rightarrow> offset \<le> int c + 1)))"

section \<open>Properties\<close>

subsection \<open>Cursor inside a string\<close>

lemma string_step_plain:
  assumes "\<not> (s \<and> d)" "c \<noteq> backslash"
  obtains s' d' where "string_step (Some c) (s, d, False) = (s', d', False)" "\<not> (s' \<and> d')"
    "scan_quotes (quote_abs s d) (c # cs) = scan_quotes (quote_abs s' d') cs"
proof (cases s)
  case True
  with assms have "\<not> d" by simp
  show ?thesis
  proof (cases "c = squote")
    case True
    show ?thesis
      by (rule that[of False False]) (use \<open>s\<close> \<open>\<not> d\<close> True in \<open>simp_all add: quote_abs_def\<close>)
  next
    case False
    show ?thesis
      by (rule that[of True False]) (use \<open>s\<close> \<open>\<not> d\<close> False assms(2) in \<open>simp_all add: quote_abs_def\<close>)
  qed
next
  case ns: False
  show ?thesis
  proof (cases d)
    case True
    show ?thesis
    proof (cases "c = dquote")
      case True
      show ?thesis
        by (rule that[of False False]) (use ns \<open>d\<close> True in \<open>simp_all add: quote_abs_def\<close>)
    next
      case False
      show ?thesis
        by (rule that[of False True]) (use ns \<open>d\<close> False assms(2) in \<open>simp_all add: quote_abs_def\<close>)
    qed
  next
    case nd: False
    show ?thesis
    proof (cases "c = squote")
      case True
      show ?thesis
        by (rule that[of True False]) (use ns nd True in \<open>simp_all add: quote_abs_def\<close>)
    next
      case nsq: False
      show ?thesis
      proof (cases "c = dquote")
        case True
        show ?thesis
          by (rule that[of False True]) (use ns nd True in \<open>simp_all add: quote_abs_def\<close>)
      next
        case False
        show ?thesis
          by (rule that[of False False]) (use ns nd nsq False assms(2) in \<open>simp_all add: quote_abs_def\<close>)
      qed
    qed
  qed
qed

lemma fold_step_Some:
  "\<not> (s \<and> d) \<Longrightarrow>
   \<exists>s' d' e'. fold string_step (map Some cs) (s, d, e) = (s', d', e') \<and> \<not> (s' \<and> d')
      \<and> quote_abs s' d' = scan_quotes (quote_abs s d) (if e then drop 1 cs else cs)"
proof (induction cs arbitrary: s d e)
  case Nil
  then show ?case by simp
next
  case (Cons c cs)
  show ?case
  proof (cases e)
    case True
    have "string_step (Some c) (s, d, e) = (s, d, False)"
      using True by simp
    with Cons.IH[OF Cons.prems, of False] True show ?thesis by simp
  next
    case False
    show ?thesis
    proof (cases "c = backslash")
      case True
      have "string_step (Some c) (s, d, e) = (s, d, True)"
        using True False by simp
      moreover have "scan_quotes (quote_abs s d) (c # cs) = scan_quotes (quote_abs s d) (drop 1 cs)"
        using True by simp
      ultimately show ?thesis
        using Cons.IH[OF Cons.prems, of True] False by simp
    next
      case nb: False
      from string_step_plain[OF Cons.prems nb, of cs]
      obtain s' d' where st: "string_step (Some c) (s, d, False) = (s', d', False)" and inv: "\<not> (s' \<and> d')"
        and sc: "scan_quotes (quote_abs s d) (c # cs) = scan_quotes (quote_abs s' d') cs"
        by blast
      from Cons.IH[OF inv, of False] st sc False show ?thesis
        by simp
    qed
  qed
qed

lemma fold_step_None:
  "(string_step None ^^ n) (s, d, e) = (s, d, (if n = 0 then e else False))"
  by (induction n arbitrary: e) (auto simp: funpow_swap1)

lemma map_char_at:
  "map (char_at tx) [0..<n] = map Some (take n tx) @ replicate (n - length tx) None"
  by (rule nth_equalityI) (auto simp: char_at_def nth_append)

lemma isCursorInsideString_eq:
  "isCursorInsideString tx offset \<longleftrightarrow> unterminated_string (take (nat offset) tx)"
proof -
  define n where "n = nat offset"
  obtain s d e where f: "fold string_step (map Some (take n tx)) (False, False, False) = (s, d, e)"
    by (cases "fold string_step (map Some (take n tx)) (False, False, False)") auto
  from fold_step_Some[where s=False and d=False and cs="take n tx" and e=False] f
  have inv: "\<not> (s \<and> d)" and ab: "quote_abs s d = scan_quotes Outside (take n tx)"
    by (auto simp: quote_abs_def)
  have "fold (\<lambda>i. string_step (char_at tx i)) [0..<n] (False, False, False)
      = fold string_step (map (char_at tx) [0..<n]) (False, False, False)"
    by (simp add: fold_map comp_def)
  also have "\<dots> = (s, d, if n - length tx = 0 then e else False)"
    by (simp add: map_char_at f fold_step_None)
  finally show ?thesis
    using ab inv unfolding isCursorInsideString_def unterminated_string_def n_def[symmetric]
    by (auto simp: quote_abs_def split: if_splits)
qed

lemma handleInput_inside_string:
  "editor s = Some e \<Longrightarrow> getModel api e = Some m \<Longrightarrow> getPosition api e = Some p \<Longrightarrow>
   isCursorInsideString (getValue m) (getOffsetAt m p) \<Longrightarrow>
   handleInput api engineSort complete s = s\<lparr>autocomplete := False, suggestion := []\<rparr>"
  unfolding handleInput_def by (simp only: option.case Let_def if_True)

text \<open>
  Claim C2. \<open>isCursorInsideString text offset\<close> is true exactly when the scan of the text
  before the offset ends inside a single- or double-quoted string (a backslash escapes
  the next character; inside a string of one kind the other quote is an ordinary
  character). When the editor, its model and its position are there and the cursor is
  inside a string, \<open>handleInput\<close> switches autocomplete off and empties the suggestion
  list, and does nothing else.
\<close>

theorem isCursorInsideString_handleInput:
  "(isCursorInsideString tx offset \<longleftrightarrow> unterminated_string (take (nat offset) tx))
   \<and> (editor s = Some e \<and> getModel api e = Some m \<and> getPosition api e = Some p
        \<and> isCursorInsideString (getValue m) (getOffsetAt m p)
      \<longrightarrow> handleInput api engineSort complete s = s\<lparr>autocomplete := False, suggestion := []\<rparr>
          \<and> \<not> autocomplete (handleInput api engineSort complete s) \<and> suggestion (handleInput api engineSort complete s) = [])"
proof (intro conjI impI)
  show "isCursorInsideString tx offset \<longleftrightarrow> unterminated_string (take (nat offset) tx)"
    by (rule isCursorInsideString_eq)
next
  assume a: "editor s = Some e \<and> getModel api e = Some m \<and> getPosition api e = Some p
        \<and> isCursorInsideString (getValue m) (getOffsetAt m p)"
  then have h: "handleInput api engineSort complete s = s\<lparr>autocomplete := False, suggestion := []\<rparr>"
    by (intro handleInput_inside_string) auto
  show "handleInput api engineSort complete s = s\<lparr>autocomplete := False, suggestion := []\<rparr>" by (rule h)
  show "\<not> autocomplete (handleInput api engineSort complete s)" by (simp add: h)
  show "suggestion (handleInput api engineSort complete s) = []" by (simp add: h)
qed

theorem isCursorInsideString_handleInput_witness:
  "isCursorInsideString (le_text quoted_editor) 12
   \<and> unterminated_string (take 12 (le_text quoted_editor))
   \<and> handleInput line_api example_engineSort (\<lambda>w. [op_entry ''+''])
         ((initial_state (Some quoted_editor))\<lparr>suggestion := [op_entry ''-''], autocomplete := True\<rparr>)
       = (initial_state (Some quoted_editor))\<lparr>suggestion := [], autocomplete := False\<rparr>"
proof -
  let ?s = "(initial_state (Some quoted_editor))\<lparr>suggestion := [op_entry ''-''], autocomplete := True\<rparr>"
  let ?p = "\<lparr>lineNumber = 1, column = 13\<rparr>"
  note th = isCursorInsideString_handleInput[of "le_text quoted_editor" 12 ?s
        quoted_editor line_api "line_model quoted_editor" ?p example_engineSort "\<lambda>w. [op_entry ''+'']"]
  have u: "unterminated_string (take 12 (le_text quoted_editor))"
    by (simp add: quoted_editor_def unterminated_string_def)
  with th have i: "isCursorInsideString (le_text quoted_editor) 12"
    by simp
  have e: "editor ?s = Some quoted_editor"
    by (simp add: initial_state_def)
  have m: "getModel line_api quoted_editor = Some (line_model quoted_editor)"
    by (simp add: line_api_def)
  have p: "getPosition line_api quoted_editor = Some ?p"
    by (simp add: line_api_def quoted_editor_def)
  have v: "getValue (line_model quoted_editor) = le_text quoted_editor"
     "getOffsetAt (line_model quoted_editor) ?p = 12"
    by (simp_all add: line_model_def)
  from th e m p v i
  have "handleInput line_api example_engineSort (\<lambda>w. [op_entry ''+'']) ?s = ?s\<lparr>autocomplete := False, suggestion := []\<rparr>"
    by simp
  then show ?thesis
    using u i by (simp add: initial_state_def)
qed

subsection \<open>Cursor between parentheses\<close>

lemma js_substring_from_0: "js_substring s 0 n = take (nat n) s"
  by (cases "n \<le> 0") (auto simp: js_substring_def Let_def min_def max_def)

text \<open>
  Claim C4. With an editor, a cursor position and a model, \<open>isCursorBetweenParenthesis\<close>
  is true exactly when the current line, cut just before the cursor column, holds more
  opening than closing parentheses (all characters of the cut line are counted, those in
  string literals too); it is false when the editor, the position or the model is
  missing, or the line is empty.
\<close>

theorem isCursorBetweenParenthesis_count:
  "(ed = Some e \<and> getPosition api e = Some p \<and> getModel api e = Some m
      \<longrightarrow> isCursorBetweenParenthesis api ed
          = (count_char CHR ''('' (take (nat (column p - 1)) (getLineContent m (lineNumber p)))
               > count_char CHR '')'' (take (nat (column p - 1)) (getLineContent m (lineNumber p)))))
   \<and> (ed = None \<longrightarrow> \<not> isCursorBetweenParenthesis api ed)
   \<and> (ed = Some e \<and> (getPosition api e = None \<or> getModel api e = None
                       \<or> (\<exists>p m. getPosition api e = Some p \<and> getModel api e = Some m
                                  \<and> getLineContent m (lineNumber p) = []))
      \<longrightarrow> \<not> isCursorBetweenParenthesis api ed)"
proof (intro conjI impI)
  assume "ed = Some e \<and> getPosition api e = Some p \<and> getModel api e = Some m"
  then show "isCursorBetweenParenthesis api ed
          = (count_char CHR ''('' (take (nat (column p - 1)) (getLineContent m (lineNumber p)))
               > count_char CHR '')'' (take (nat (column p - 1)) (getLineContent m (lineNumber p))))"
    by (cases "getLineContent m (lineNumber p) = []")
       (simp_all add: isCursorBetweenParenthesis_def js_substring_from_0 count_char_def Let_def)
next
  assume "ed = None"
  then show "\<not> isCursorBetweenParenthesis api ed"
    by (simp add: isCursorBetweenParenthesis_def)
next
  assume "ed = Some e \<and> (getPosition api e = None \<or> getModel api e = None
                       \<or> (\<exists>p m. getPosition api e = Some p \<and> getModel api e = Some m
                                  \<and> getLineContent m (lineNumber p) = []))"
  then show "\<not> isCursorBetweenParenthesis api ed"
    by (auto simp: isCursorBetweenParenthesis_def split: option.splits)
qed

theorem isCursorBetweenParenthesis_count_witness:
  "isCursorBetweenParenthesis line_api (Some nested_call_editor)
   \<and> count_char CHR ''('' (take 11 ''IF(SUM(1), '') = 2
   \<and> count_char CHR '')'' (take 11 ''IF(SUM(1), '') = 1
   \<and> \<not> isCursorBetweenParenthesis line_api None
   \<and> \<not> isCursorBetweenParenthesis line_api (Some \<lparr>le_text = [], le_column = 1\<rparr>)"
proof -
  let ?p = "\<lparr>lineNumber = 1, column = 12\<rparr>"
  have p: "getPosition line_api nested_call_editor = Some ?p"
    by (simp add: line_api_def nested_call_editor_def)
  have m: "getModel line_api nested_call_editor = Some (line_model nested_call_editor)"
    by (simp add: line_api_def)
  have l: "getLineContent (line_model nested_call_editor) (lineNumber ?p) = ''IF(SUM(1), ''"
    by (simp add: line_model_def nested_call_editor_def)
  have c: "count_char CHR ''('' (take 11 ''IF(SUM(1), '') = 2" "count_char CHR '')'' (take 11 ''IF(SUM(1), '') = 1"
    by (simp_all add: count_char_def)
  have a: "isCursorBetweenParenthesis line_api (Some nested_call_editor)"
    using isCursorBetweenParenthesis_count[of "Some nested_call_editor" nested_call_editor line_api ?p
        "line_model nested_call_editor"] p m l c
    by simp
  let ?e = "\<lparr>le_text = [], le_column = 1\<rparr>"
  have pe: "getPosition line_api ?e = Some \<lparr>lineNumber = 1, column = 1\<rparr>"
    by (simp add: line_api_def)
  have me: "getModel line_api ?e = Some (line_model ?e)"
    by (simp add: line_api_def)
  have le: "getLineContent (line_model ?e) 1 = []"
    by (simp add: line_model_def)
  have b: "\<not> isCursorBetweenParenthesis line_api None"
    using isCursorBetweenParenthesis_count[of None undefined line_api] by simp
  have d: "\<not> isCursorBetweenParenthesis line_api (Some ?e)"
    using isCursorBetweenParenthesis_count[of "Some ?e" ?e line_api] pe me le by simp
  from a b c d show ?thesis by simp
qed

subsection \<open>Unsupported functions in the suggestion list\<close>

lemma insert_js_unsupported:
  "\<forall>a \<in> set as. \<not> unsupported a \<Longrightarrow> \<forall>b \<in> set bs. unsupported b \<Longrightarrow>
   insert_js unsupported_cmp x (as @ bs) = (if unsupported x then as @ x # bs else x # as @ bs)"
proof (induction as)
  case Nil
  then show ?case by (cases bs) (auto simp: unsupported_cmp_def)
next
  case (Cons a as)
  then show ?case by (auto simp: unsupported_cmp_def)
qed

lemma sort_js_unsupported:
  "sort_js unsupported_cmp xs = filter (\<lambda>e. \<not> unsupported e) xs @ filter unsupported xs"
proof (induction xs)
  case Nil
  show ?case by (simp add: sort_js_def)
next
  case (Cons x xs)
  have "sort_js unsupported_cmp (x # xs) = insert_js unsupported_cmp x (sort_js unsupported_cmp xs)"
    by (simp add: sort_js_def)
  also have "\<dots> = insert_js unsupported_cmp x (filter (\<lambda>e. \<not> unsupported e) xs @ filter unsupported xs)"
    by (simp only: Cons.IH)
  also have "\<dots> = (if unsupported x then filter (\<lambda>e. \<not> unsupported e) xs @ x # filter unsupported xs
                    else x # filter (\<lambda>e. \<not> unsupported e) xs @ filter unsupported xs)"
    by (rule insert_js_unsupported) auto
  finally show ?case by simp
qed

lemma partition_order:
  assumes "xs = filter (\<lambda>e. \<not> P e) es @ filter P es" "i < length xs" "j < length xs" "P (xs ! i)" "\<not> P (xs ! j)"
  shows "j < i"
proof (rule ccontr)
  let ?A = "filter (\<lambda>e. \<not> P e) es"
  let ?B = "filter P es"
  assume "\<not> j < i"
  then have ij: "i \<le> j" by simp
  have "i \<ge> length ?A"
  proof (rule ccontr)
    assume "\<not> length ?A \<le> i"
    then have lt: "i < length ?A" by simp
    then have "?A ! i \<in> set ?A" by (rule nth_mem)
    then have "\<not> P (?A ! i)" by simp
    moreover have "xs ! i = ?A ! i" using assms(1) lt by (simp add: nth_append)
    ultimately show False using assms(4) by simp
  qed
  with ij have ge: "j \<ge> length ?A" by simp
  with assms(1,3) have lt: "j - length ?A < length ?B" by simp
  then have "?B ! (j - length ?A) \<in> set ?B" by (rule nth_mem)
  then have "P (?B ! (j - length ?A))" by simp
  moreover have "xs ! j = ?B ! (j - length ?A)" using assms(1) ge by (simp add: nth_append)
  ultimately show False using assms(5) by simp
qed

lemma unsupported_entries:
  "e \<in> set (suggestion_entries fs formulas unsup cols cref) \<Longrightarrow>
   unsupported e \<longleftrightarrow> (\<exists>fn \<in> set fs. fn \<in> set unsup \<and> e = function_entry formulas unsup fn)"
  by (auto simp: suggestion_entries_def function_entry_def column_entry_def op_entry_def)

text \<open>
  Claim C6. \<open>suggestionsList\<close> is the list of function, column and operator entries with
  the entries that are not unsupported first and the unsupported ones after them, each
  group in its original order. An entry is unsupported exactly when it is the entry of a
  function that the SQL dialect reports in its list of unsupported functions.
\<close>

theorem suggestionsList_unsupported_last:
  "suggestionsList fs formulas unsup cols cref
     = filter (\<lambda>e. \<not> unsupported e) (suggestion_entries fs formulas unsup cols cref)
       @ filter unsupported (suggestion_entries fs formulas unsup cols cref)
   \<and> (\<forall>e \<in> set (suggestion_entries fs formulas unsup cols cref).
         unsupported e \<longleftrightarrow> (\<exists>fn \<in> set fs. fn \<in> set unsup \<and> e = function_entry formulas unsup fn))
   \<and> (\<forall>i j. i < length (suggestionsList fs formulas unsup cols cref)
            \<and> j < length (suggestionsList fs formulas unsup cols cref)
            \<and> unsupported (suggestionsList fs formulas unsup cols cref ! i)
            \<and> \<not> unsupported (suggestionsList fs formulas unsup cols cref ! j)
         \<longrightarrow> j < i)"
proof (intro conjI ballI allI impI)
  show eq: "suggestionsList fs formulas unsup cols cref
     = filter (\<lambda>e. \<not> unsupported e) (suggestion_entries fs formulas unsup cols cref)
       @ filter unsupported (suggestion_entries fs formulas unsup cols cref)"
    by (simp only: suggestionsList_def sort_js_unsupported)
  fix i j
  assume "i < length (suggestionsList fs formulas unsup cols cref)
            \<and> j < length (suggestionsList fs formulas unsup cols cref)
            \<and> unsupported (suggestionsList fs formulas unsup cols cref ! i)
            \<and> \<not> unsupported (suggestionsList fs formulas unsup cols cref ! j)"
  then show "j < i"
    using partition_order[OF eq, of i j] by blast
next
  fix e
  assume "e \<in> set (suggestion_entries fs formulas unsup cols cref)"
  then show "unsupported e \<longleftrightarrow> (\<exists>fn \<in> set fs. fn \<in> set unsup \<and> e = function_entry formulas unsup fn)"
    by (rule unsupported_entries)
qed

theorem suggestionsList_unsupported_last_witness:
  "map sug_text (suggestionsList [''XOR'', ''SUM''] example_formulas [''XOR''] example_columns (Some None))
     = [''SUM()'', ''Title'', ''+'', ''-'', ''*'', ''/'', ''>'', ''<'', ''=='', ''<='', ''>='', ''!='', ''&'', ''XOR()'']
   \<and> unsupported (suggestionsList [''XOR'', ''SUM''] example_formulas [''XOR''] example_columns (Some None) ! 13)
   \<and> \<not> unsupported (suggestionsList [''XOR'', ''SUM''] example_formulas [''XOR''] example_columns (Some None) ! 1)
   \<and> (1::nat) < 13"
proof -
  let ?xs = "suggestionsList [''XOR'', ''SUM''] example_formulas [''XOR''] example_columns (Some None)"
  note th = suggestionsList_unsupported_last[of "[''XOR'', ''SUM'']" example_formulas "[''XOR'']" example_columns "Some None"]
  have es: "suggestion_entries [''XOR'', ''SUM''] example_formulas [''XOR''] example_columns (Some None)
      = [function_entry example_formulas [''XOR''] ''XOR'', function_entry example_formulas [''XOR''] ''SUM'',
         column_entry (example_columns ! 0)] @ map op_entry availableBinOps"
    by (simp add: suggestion_entries_def example_columns_def)
  have u: "unsupported (function_entry example_formulas [''XOR''] ''XOR'')"
      "\<not> unsupported (function_entry example_formulas [''XOR''] ''SUM'')"
      "\<not> unsupported (column_entry c)" "\<And>ops. filter unsupported (map op_entry ops) = []"
      "\<And>ops. filter (\<lambda>e. \<not> unsupported e) (map op_entry ops) = map op_entry ops" for c
    by (simp_all add: function_entry_def column_entry_def op_entry_def filter_empty_conv filter_id_conv)
  from th have xs: "?xs = [function_entry example_formulas [''XOR''] ''SUM'', column_entry (example_columns ! 0)]
       @ map op_entry availableBinOps @ [function_entry example_formulas [''XOR''] ''XOR'']"
    by (simp add: es u)
  have t: "map sug_text ?xs = [''SUM()'', ''Title'', ''+'', ''-'', ''*'', ''/'', ''>'', ''<'', ''=='', ''<='', ''>='', ''!='', ''&'', ''XOR()'']"
    unfolding xs by (simp add: function_entry_def column_entry_def op_entry_def availableBinOps_def example_columns_def)
  have l: "length ?xs = 14"
    by (simp add: xs availableBinOps_def)
  have n13: "?xs ! 13 = function_entry example_formulas [''XOR''] ''XOR''"
    by (simp add: xs availableBinOps_def nth_append)
  have n1: "?xs ! 1 = column_entry (example_columns ! 0)"
    by (simp add: xs)
  from th l n13 n1 u have "(1::nat) < 13" by simp
  with t n13 n1 u show ?thesis by simp
qed

subsection \<open>Roles offered to the current user\<close>

lemma findIndex_range: "- 1 \<le> findIndex P xs \<and> findIndex P xs < int (length xs)"
  by (induction xs) (auto simp: Let_def)

lemma findIndex_none: "findIndex P xs = - 1 \<longleftrightarrow> (\<forall>x \<in> set xs. \<not> P x)"
proof (induction xs)
  case Nil
  show ?case by simp
next
  case (Cons x xs)
  from findIndex_range[of P xs] have "findIndex P xs + 1 \<noteq> - 1" by simp
  with Cons show ?case by (auto simp: Let_def)
qed

lemma findIndex_first:
  "findIndex P xs \<noteq> - 1 \<Longrightarrow>
   P (xs ! nat (findIndex P xs)) \<and> (\<forall>j < nat (findIndex P xs). \<not> P (xs ! j))"
proof (induction xs)
  case Nil
  then show ?case by simp
next
  case (Cons x xs)
  show ?case
  proof (cases "P x")
    case True
    then show ?thesis by simp
  next
    case False
    with Cons.prems have ne: "findIndex P xs \<noteq> - 1"
      by (auto simp: Let_def split: if_splits)
    from findIndex_range[of P xs] ne have nn: "0 \<le> findIndex P xs" by simp
    from False ne have eq: "findIndex P (x # xs) = findIndex P xs + 1"
      by (simp add: Let_def)
    from nn have n: "nat (findIndex P xs + 1) = Suc (nat (findIndex P xs))" by simp
    from Cons.IH[OF ne] False show ?thesis
      unfolding eq n by (auto simp: less_Suc_eq_0_disj)
  qed
qed

lemma drop_after_distinct:
  assumes "distinct xs" "r \<in> set (drop (Suc k) xs)" "j \<le> k"
  shows "xs ! j \<noteq> r"
proof
  assume e: "xs ! j = r"
  from assms(2) obtain i where i: "i < length (drop (Suc k) xs)" "drop (Suc k) xs ! i = r"
    by (auto simp: in_set_conv_nth)
  then have "Suc k + i < length xs" "xs ! (Suc k + i) = r" by auto
  moreover from this assms(3) have "j < length xs" "j \<noteq> Suc k + i" by auto
  ultimately show False using assms(1) e by (auto simp: distinct_conv_nth)
qed

text \<open>
  Claim C8. Let the user's own role be the first role of the ordered list that is a key
  of the user's roles object. If there is none, a user who is not super admin is offered
  no role. Otherwise the workspace table offers the non-empty roles after the own role
  and the base table offers all roles after it; with an ordered list without
  repetitions no offered role is the own role or one before it. In the base access
  settings a super admin is offered every ordered role but the first.
\<close>

theorem accessibleRoles_below_own_role:
  assumes "distinct ordered"
  shows "(findIndex (has_role rs) ordered = - 1
            \<longrightarrow> accessibleRoles_workspace ordered rs = [] \<and> accessibleRoles_base ordered rs False [] = [])
       \<and> (findIndex (has_role rs) ordered \<noteq> - 1
            \<longrightarrow> has_role rs (ordered ! nat (findIndex (has_role rs) ordered))
              \<and> (\<forall>j < nat (findIndex (has_role rs) ordered). \<not> has_role rs (ordered ! j))
              \<and> accessibleRoles_workspace ordered rs
                   = filter (\<lambda>r. r \<noteq> []) (drop (nat (findIndex (has_role rs) ordered) + 1) ordered)
              \<and> accessibleRoles_base ordered rs False acc = drop (nat (findIndex (has_role rs) ordered) + 1) ordered
              \<and> (\<forall>r \<in> set (accessibleRoles_workspace ordered rs) \<union> set (accessibleRoles_base ordered rs False acc).
                    \<forall>j \<le> nat (findIndex (has_role rs) ordered). ordered ! j \<noteq> r))
       \<and> accessibleRoles_base ordered rs True acc = drop 1 ordered"
proof (intro conjI impI)
  assume "findIndex (has_role rs) ordered = - 1"
  then show "accessibleRoles_workspace ordered rs = []" "accessibleRoles_base ordered rs False [] = []"
    by (simp_all add: accessibleRoles_workspace_def accessibleRoles_base_def)
next
  show "accessibleRoles_base ordered rs True acc = drop 1 ordered"
    by (simp add: accessibleRoles_base_def js_slice_def)
next
  let ?k = "findIndex (has_role rs) ordered"
  assume ne: "?k \<noteq> - 1"
  from findIndex_range[of "has_role rs" ordered] ne have nn: "0 \<le> ?k" by simp
  then have sl: "js_slice ordered (?k + 1) = drop (nat ?k + 1) ordered"
    by (simp add: js_slice_def nat_add_distrib)
  from findIndex_first[OF ne]
  show "has_role rs (ordered ! nat ?k)" "\<forall>j < nat ?k. \<not> has_role rs (ordered ! j)"
    by simp_all
  show w: "accessibleRoles_workspace ordered rs = filter (\<lambda>r. r \<noteq> []) (drop (nat ?k + 1) ordered)"
    using ne sl by (simp add: accessibleRoles_workspace_def Let_def)
  show b: "accessibleRoles_base ordered rs False acc = drop (nat ?k + 1) ordered"
    using ne sl by (simp add: accessibleRoles_base_def Let_def)
  show "\<forall>r \<in> set (accessibleRoles_workspace ordered rs) \<union> set (accessibleRoles_base ordered rs False acc).
          \<forall>j \<le> nat ?k. ordered ! j \<noteq> r"
  proof (intro ballI allI impI)
    fix r j
    assume "r \<in> set (accessibleRoles_workspace ordered rs) \<union> set (accessibleRoles_base ordered rs False acc)"
      and j: "j \<le> nat ?k"
    then have "r \<in> set (drop (Suc (nat ?k)) ordered)"
      unfolding w b by auto
    from drop_after_distinct[OF assms this j] show "ordered ! j \<noteq> r" .
  qed
qed

theorem accessibleRoles_below_own_role_witness:
  "distinct example_roles
   \<and> accessibleRoles_workspace example_roles (Some [''editor'' \<mapsto> True]) = [''commenter'', ''viewer'', ''no-access'']
   \<and> accessibleRoles_base example_roles (Some [''editor'' \<mapsto> True]) False [] = [''commenter'', ''viewer'', ''no-access'']
   \<and> accessibleRoles_base example_roles (Some [''editor'' \<mapsto> True]) True [] = [''creator'', ''editor'', ''commenter'', ''viewer'', ''no-access'']
   \<and> accessibleRoles_workspace example_roles (Some Map.empty) = []
   \<and> accessibleRoles_base example_roles None False [] = []"
proof -
  have d: "distinct example_roles"
    by (simp add: example_roles_def)
  have k: "findIndex (has_role (Some [''editor'' \<mapsto> True])) example_roles = 2"
    by (simp add: example_roles_def has_role_def)
  have k0: "findIndex (has_role (Some Map.empty)) example_roles = - 1" "findIndex (has_role None) example_roles = - 1"
    by (simp_all add: example_roles_def has_role_def)
  have dr: "drop 3 example_roles = [''commenter'', ''viewer'', ''no-access'']"
      "drop 1 example_roles = [''creator'', ''editor'', ''commenter'', ''viewer'', ''no-access'']"
    by (simp_all add: example_roles_def)
  from accessibleRoles_below_own_role[OF d, of "Some [''editor'' \<mapsto> True]" "[]"] k dr
  have "accessibleRoles_workspace example_roles (Some [''editor'' \<mapsto> True]) = [''commenter'', ''viewer'', ''no-access'']"
    "accessibleRoles_base example_roles (Some [''editor'' \<mapsto> True]) False [] = [''commenter'', ''viewer'', ''no-access'']"
    "accessibleRoles_base example_roles (Some [''editor'' \<mapsto> True]) True [] = [''creator'', ''editor'', ''commenter'', ''viewer'', ''no-access'']"
    by simp_all
  moreover from accessibleRoles_below_own_role[OF d, of "Some Map.empty" "[]"] k0
  have "accessibleRoles_workspace example_roles (Some Map.empty) = []" by simp
  moreover from accessibleRoles_below_own_role[OF d, of None "[]"] k0
  have "accessibleRoles_base example_roles None False [] = []" by simp
  ultimately show ?thesis using d by simp
qed

subsection \<open>Validation is delegated to the SDK\<close>

lemma js_trim_empty: "js_trim f = [] \<longleftrightarrow> (\<forall>c \<in> set f. is_space_char c)"
proof
  assume "js_trim f = []"
  then have a: "\<forall>x \<in> set (dropWhile is_space_char f). is_space_char x"
    by (simp add: js_trim_def dropWhile_eq_Nil_conv)
  have "dropWhile is_space_char f = []"
  proof (rule ccontr)
    assume ne: "dropWhile is_space_char f \<noteq> []"
    then have "\<not> is_space_char (hd (dropWhile is_space_char f))" by (rule hd_dropWhile)
    moreover from ne have "hd (dropWhile is_space_char f) \<in> set (dropWhile is_space_char f)" by simp
    ultimately show False using a by blast
  qed
  then show "\<forall>c \<in> set f. is_space_char c"
    by (simp add: dropWhile_eq_Nil_conv)
next
  assume "\<forall>c \<in> set f. is_space_char c"
  then have "dropWhile is_space_char f = []"
    by (simp add: dropWhile_eq_Nil_conv)
  then show "js_trim f = []"
    unfolding js_trim_def by (simp only: rev.simps dropWhile.simps)
qed

text \<open>
  Claim C3. A missing, empty or white-space-only formula is rejected with
  \<open>Required\<close>. Any other formula is handed to the SDK call and the outcome depends on
  that call alone: no error when it returns, the translation of \<open>extra.key\<close> when it
  throws a \<open>FormulaError\<close> with a non-empty key, and the thrown error's own message
  otherwise.
\<close>

theorem formula_raw_validator_delegates:
  "(fml = None \<or> (\<exists>f. fml = Some f \<and> (\<forall>c \<in> set f. is_space_char c))
      \<longrightarrow> formula_raw_validator t validate fml = Inl ''Required'')
   \<and> (fml = Some f \<and> \<not> (\<forall>c \<in> set f. is_space_char c)
      \<longrightarrow> (isl (formula_raw_validator t validate fml) \<longleftrightarrow> isl (validate f))
        \<and> (\<forall>tree. validate f = Inr tree \<longrightarrow> formula_raw_validator t validate fml = Inr ())
        \<and> (\<forall>key x m. validate f = Inl (FormulaError (Some key) x m) \<and> key \<noteq> []
              \<longrightarrow> formula_raw_validator t validate fml = Inl (t key x))
        \<and> (\<forall>x m. validate f = Inl (FormulaError None x m) \<or> validate f = Inl (FormulaError (Some []) x m)
              \<longrightarrow> formula_raw_validator t validate fml = Inl m)
        \<and> (\<forall>m. validate f = Inl (OtherError m) \<longrightarrow> formula_raw_validator t validate fml = Inl m))"
proof (intro conjI impI)
  assume "fml = None \<or> (\<exists>f. fml = Some f \<and> (\<forall>c \<in> set f. is_space_char c))"
  then show "formula_raw_validator t validate fml = Inl ''Required''"
    by (auto simp: formula_raw_validator_def js_trim_empty)
next
  assume a: "fml = Some f \<and> \<not> (\<forall>c \<in> set f. is_space_char c)"
  then have nt: "js_trim f \<noteq> []" by (simp add: js_trim_empty)
  with a have unf: "formula_raw_validator t validate fml =
      (case validate f of
         Inr _ \<Rightarrow> Inr ()
       | Inl e \<Rightarrow>
           (case e of
              FormulaError k x m \<Rightarrow>
                (case k of Some key \<Rightarrow> if key \<noteq> [] then Inl (t key x) else Inl m | None \<Rightarrow> Inl m)
            | OtherError m \<Rightarrow> Inl m))"
    by (simp add: formula_raw_validator_def)
  show "isl (formula_raw_validator t validate fml) \<longleftrightarrow> isl (validate f)"
    unfolding unf by (auto split: sum.splits sdk_error.splits option.splits)
  show "\<forall>tree. validate f = Inr tree \<longrightarrow> formula_raw_validator t validate fml = Inr ()"
    unfolding unf by simp
  show "\<forall>key x m. validate f = Inl (FormulaError (Some key) x m) \<and> key \<noteq> []
              \<longrightarrow> formula_raw_validator t validate fml = Inl (t key x)"
    unfolding unf by simp
  show "\<forall>x m. validate f = Inl (FormulaError None x m) \<or> validate f = Inl (FormulaError (Some []) x m)
              \<longrightarrow> formula_raw_validator t validate fml = Inl m"
    unfolding unf by auto
  show "\<forall>m. validate f = Inl (OtherError m) \<longrightarrow> formula_raw_validator t validate fml = Inl m"
    unfolding unf by simp
qed

theorem formula_raw_validator_delegates_witness:
  "formula_raw_validator example_t example_validate (Some ''  '') = Inl ''Required''
   \<and> formula_raw_validator example_t example_validate (Some ''SUM(1)'') = Inr ()
   \<and> formula_raw_validator example_t example_validate (Some ''SUM(1'') = Inl ''<msg.formula.parenthesisMissing>''
   \<and> formula_raw_validator example_t example_validate (Some ''1)'') = Inl ''Unexpected )''"
proof -
  have s: "(\<forall>c \<in> set ''  ''. is_space_char c) = True"
    by (simp add: is_space_char_def)
  have n: "(\<forall>c \<in> set ''SUM(1)''. is_space_char c) = False" "(\<forall>c \<in> set ''SUM(1''. is_space_char c) = False"
      "(\<forall>c \<in> set ''1)''. is_space_char c) = False"
    by (simp_all add: is_space_char_def)
  have v: "example_validate ''SUM(1)'' = Inr 6"
      "example_validate ''SUM(1'' = Inl (FormulaError (Some ''msg.formula.parenthesisMissing'') () ''Missing parenthesis'')"
      "example_validate ''1)'' = Inl (OtherError ''Unexpected )'')"
    by (simp_all add: example_validate_def count_char_def)
  have a: "formula_raw_validator example_t example_validate (Some ''  '') = Inl ''Required''"
    using formula_raw_validator_delegates[of "Some ''  ''" example_t example_validate, THEN conjunct1]
    by (simp only: s option.inject simp_thms ex_simps)
  have b: "formula_raw_validator example_t example_validate (Some ''SUM(1)'') = Inr ()"
    using formula_raw_validator_delegates[of "Some ''SUM(1)''" example_t example_validate "''SUM(1)''", THEN conjunct2]
    by (simp only: n v simp_thms sum.inject)
  have c: "formula_raw_validator example_t example_validate (Some ''SUM(1'') = Inl (example_t ''msg.formula.parenthesisMissing'' ())"
    using formula_raw_validator_delegates[of "Some ''SUM(1''" example_t example_validate "''SUM(1''", THEN conjunct2]
    by (simp only: n v simp_thms) simp?
  have d: "formula_raw_validator example_t example_validate (Some ''1)'') = Inl ''Unexpected )''"
    using formula_raw_validator_delegates[of "Some ''1)''" example_t example_validate "''1)''", THEN conjunct2]
    by (simp only: n v simp_thms) simp?
  from a b c d show ?thesis by (simp add: example_t_def)
qed

text \<open>
  Claim C7. \<open>parsedTree\<close> is the tree that the SDK call returns for \<open>vModel.formula\<close>,
  or for \<open>vModel.formula_raw\<close> when the former is missing or empty; when the call throws,
  it is an object whose \<open>dataType\<close> is \<open>UNKNOWN\<close>, and no error leaves the computation.
\<close>

theorem parsedTree_tree_or_unknown:
  "(\<forall>tree. validate (if formula vModel = None \<or> formula vModel = Some [] then formula_raw vModel else formula vModel) = Inr tree
       \<longrightarrow> parsedTree validate vModel = SdkTree tree)
   \<and> (\<forall>e. validate (if formula vModel = None \<or> formula vModel = Some [] then formula_raw vModel else formula vModel) = Inl e
       \<longrightarrow> parsedTree validate vModel = DataTypeOnly UNKNOWN)"
proof -
  have "js_or (formula vModel) (formula_raw vModel)
      = (if formula vModel = None \<or> formula vModel = Some [] then formula_raw vModel else formula vModel)"
    by (auto simp: js_or_def split: option.splits)
  then show ?thesis
    by (simp add: parsedTree_def)
qed

theorem parsedTree_tree_or_unknown_witness:
  "parsedTree (\<lambda>f. case f of None \<Rightarrow> Inl (OtherError ''empty'') | Some g \<Rightarrow> example_validate g)
      \<lparr>formula = Some [], formula_raw = Some ''SUM(1)''\<rparr> = SdkTree 6
   \<and> parsedTree (\<lambda>f. case f of None \<Rightarrow> Inl (OtherError ''empty'') | Some g \<Rightarrow> example_validate g)
      \<lparr>formula = Some ''SUM(1'', formula_raw = Some ''SUM(1)''\<rparr> = DataTypeOnly UNKNOWN"
proof -
  let ?v = "\<lambda>f. case f of None \<Rightarrow> Inl (OtherError ''empty'') | Some g \<Rightarrow> example_validate g"
  have v: "example_validate ''SUM(1)'' = Inr 6"
      "example_validate ''SUM(1'' = Inl (FormulaError (Some ''msg.formula.parenthesisMissing'') () ''Missing parenthesis'')"
    by (simp_all add: example_validate_def count_char_def)
  have "parsedTree ?v \<lparr>formula = Some [], formula_raw = Some ''SUM(1)''\<rparr> = SdkTree 6"
    using parsedTree_tree_or_unknown[of ?v "\<lparr>formula = Some [], formula_raw = Some ''SUM(1)''\<rparr>"] v(1) by simp
  moreover have "parsedTree ?v \<lparr>formula = Some ''SUM(1'', formula_raw = Some ''SUM(1)''\<rparr> = DataTypeOnly UNKNOWN"
    using parsedTree_tree_or_unknown[of ?v "\<lparr>formula = Some ''SUM(1'', formula_raw = Some ''SUM(1)''\<rparr>"] v(2) by simp
  ultimately show ?thesis by simp
qed

subsection \<open>The enclosing function\<close>


text \<open>
  Claim C1 as written fails: in \<open>A({x},1)\<close> with the cursor behind the comma the call
  of \<open>A\<close> encloses the cursor, and \<open>findEnclosingFunction\<close> returns \<open>null\<close>, because
  the child value \<open>{x}\<close> ended before the offset and the recorded span of \<open>A\<close> is cut
  behind it.
\<close>

theorem findEnclosingFunction_counterexample:
  "findEnclosingFunction ''A({x},1)'' 6 = None \<and> innermost_enclosing_call ''A({x},1)'' 6 = Some ''A''"
  by code_simp

lemma scan_arguments_step:
  "i < length tx \<Longrightarrow>
   scan_arguments tx offset i parenBalance child fnEnd =
     (let c = tx ! i;
          parenBalance' = (if c = CHR ''('' then parenBalance + 1
                           else if c = CHR '')'' then parenBalance - 1
                           else parenBalance)
      in if c = CHR '')'' \<and> parenBalance' = 0 then (int i + 1, snd child, None)
         else (let child' = child_value_step c i child
               in if int i \<ge> offset
                  then (if parenBalance' > 0 then (int i + 1, snd child', None)
                        else (fnEnd, snd child', Some i))
                  else scan_arguments tx offset (i + 1) parenBalance' child' fnEnd))"
  by (subst scan_arguments.simps) (simp only: if_True)

lemma scan_arguments_end:
  "\<not> i < length tx \<Longrightarrow> scan_arguments tx offset i parenBalance child fnEnd = (fnEnd, snd child, None)"
  by (subst scan_arguments.simps) (simp only: if_False)

lemma child_value_step_snd:
  "snd (child_value_step c i child) = snd child \<or> snd (child_value_step c i child) = int i"
  by (cases child) (simp add: child_value_step_def)

lemma balancing_drop:
  "i < length tx \<Longrightarrow>
   balancing depth (drop i tx) =
     (if tx ! i = CHR ''('' then map_option Suc (balancing (Suc depth) (drop (Suc i) tx))
      else if tx ! i = CHR '')''
      then (case depth of 0 \<Rightarrow> Some 0 | Suc d \<Rightarrow> map_option Suc (balancing d (drop (Suc i) tx)))
      else map_option Suc (balancing depth (drop (Suc i) tx)))"
proof -
  assume "i < length tx"
  then have "drop i tx = tx ! i # drop (Suc i) tx"
    by (simp add: Cons_nth_drop_Suc)
  then show ?thesis by simp
qed

lemma scan_arguments_closing:
  "1 \<le> parenBalance \<Longrightarrow> snd child < int i \<Longrightarrow>
   scan_arguments tx offset i parenBalance child fnEnd = (e', ce', n) \<Longrightarrow>
   balancing (nat (parenBalance - 1)) (drop i tx) = Some k \<Longrightarrow>
   offset \<le> int (i + k) \<or> (e' = int (i + k) + 1 \<and> ce' < int (i + k))"
proof (induction tx offset i parenBalance child fnEnd arbitrary: k rule: scan_arguments.induct)
  case (1 tx offset i parenBalance child fnEnd)
  show ?case
  proof (cases "i < length tx")
    case False
    with "1.prems"(4) show ?thesis by simp
  next
    case True
    define c where "c = tx ! i"
    define b' where "b' = (if c = CHR ''('' then parenBalance + 1 else if c = CHR '')'' then parenBalance - 1 else parenBalance)"
    define child' where "child' = child_value_step c i child"
    note unf = scan_arguments_step[OF True, of offset parenBalance child fnEnd, unfolded Let_def,
        folded c_def, folded b'_def, folded child'_def]
    note bal = balancing_drop[OF True, of "nat (parenBalance - 1)", folded c_def]
    show ?thesis
    proof (cases "c = CHR '')'' \<and> b' = 0")
      case True
      then have pb: "parenBalance = 1" by (auto simp: b'_def)
      from True "1.prems"(3) have "e' = int i + 1" "ce' = snd child"
        unfolding unf by simp_all
      moreover from True pb "1.prems"(4) have "k = 0"
        unfolding bal by simp
      ultimately show ?thesis using "1.prems"(2) by simp
    next
      case nz: False
      with "1.prems"(1) have pos: "1 \<le> b'"
        by (auto simp: b'_def split: if_splits)
      show ?thesis
      proof (cases "int i \<ge> offset")
        case True
        then show ?thesis by simp
      next
        case False
        from "1.prems"(3) nz False
        have rec: "scan_arguments tx offset (i + 1) b' child' fnEnd = (e', ce', n)"
          unfolding unf by simp
        from child_value_step_snd[of c i child] "1.prems"(2) have inv: "snd child' < int (i + 1)"
          unfolding child'_def by auto
        have "\<exists>k'. balancing (nat (b' - 1)) (drop (i + 1) tx) = Some k' \<and> k = Suc k'"
        proof (cases "c = CHR ''(''")
          case True
          then have "nat (b' - 1) = Suc (nat (parenBalance - 1))"
            using "1.prems"(1) by (simp add: b'_def)
          with True "1.prems"(4) show ?thesis
            unfolding bal by auto
        next
          case no: False
          show ?thesis
          proof (cases "c = CHR '')''")
            case True
            with nz no pos have "nat (parenBalance - 1) = Suc (nat (b' - 1))"
              by (simp add: b'_def)
            with True no "1.prems"(4) show ?thesis
              unfolding bal by auto
          next
            case False
            with no have "b' = parenBalance" by (simp add: b'_def)
            with False no "1.prems"(4) show ?thesis
              unfolding bal by auto
          qed
        qed
        then obtain k' where k': "balancing (nat (b' - 1)) (drop (i + 1) tx) = Some k'" "k = Suc k'"
          by blast
        from "1.IH"[OF True c_def b'_def nz child'_def False pos inv rec k'(1)] k'(2)
        show ?thesis by simp
      qed
    qed
  qed
qed

lemma recorded_fields:
  "fn_name (recorded tx offset p name li) = name" "fn_start (recorded tx offset p name li) = int p"
  by (auto simp: recorded_def cut_at_child_value_def split: prod.splits)

lemma recorded_sound:
  assumes "offset \<le> fn_end (recorded tx offset p name li)"
  shows "case closing_paren tx li of None \<Rightarrow> True | Some c \<Rightarrow> offset \<le> int c + 1"
proof (cases "closing_paren tx li")
  case None
  then show ?thesis by simp
next
  case (Some c)
  then obtain k where k: "balancing 0 (drop li tx) = Some k" "c = li + k"
    by (auto simp: closing_paren_def)
  obtain e' ce' n where sc: "scan_arguments tx offset li 1 (- 1, - 1) (int li) = (e', ce', n)"
    by (cases "scan_arguments tx offset li 1 (- 1, - 1) (int li)") auto
  from scan_arguments_closing[OF _ _ sc, of k] k(1)
  have d: "offset \<le> int (li + k) \<or> (e' = int (li + k) + 1 \<and> ce' < int (li + k))"
    by simp
  from assms have "offset \<le> fn_end (cut_at_child_value offset ce' \<lparr>fn_name = name, fn_start = int p, fn_end = e'\<rparr>)"
    by (simp add: recorded_def sc)
  with d have "offset \<le> int (li + k) + 1"
    by (auto simp: cut_at_child_value_def split: if_splits)
  with Some k(2) show ?thesis by simp
qed


lemma formulaRegex_exec_match:
  "formulaRegex_exec tx k = Some (p, name, li) \<Longrightarrow> formula_match_at tx p = Some (name, li)"
  unfolding formulaRegex_exec_def
  by (auto split: option.splits)

lemma enclosing_loop_unfold:
  "enclosing_loop tx offset k stack iq ql =
     (case formulaRegex_exec tx k of
        None \<Rightarrow> enclosing_result offset stack
      | Some (p, name, li) \<Rightarrow>
          if int p > offset then enclosing_result offset stack
          else (case quote_loop tx p iq ql of
                  (iq', ql') \<Rightarrow>
                    enclosing_loop tx offset li
                      (if iq then stack else stack @ [recorded tx offset p name li]) iq' ql'))"
proof (cases "formulaRegex_exec tx k")
  case None
  then show ?thesis
    unfolding enclosing_loop.simps[of tx offset k stack iq ql] by simp
next
  case (Some mt)
  obtain p name li where mt: "mt = (p, name, li)" by (cases mt) auto
  obtain e ce n where sc: "scan_arguments tx offset li 1 (- 1, - 1) (int li) = (e, ce, n)"
    by (cases "scan_arguments tx offset li 1 (- 1, - 1) (int li)") auto
  from scan_arguments_no_nested[of 1 tx offset li "(- 1, - 1)" "int li"] sc have n: "n = None"
    by simp
  obtain iq' ql' where q: "quote_loop tx p iq ql = (iq', ql')"
    by (cases "quote_loop tx p iq ql") auto
  show ?thesis
    unfolding enclosing_loop.simps[of tx offset k stack iq ql] Some mt
    using q by (cases iq) (simp_all add: sc n recorded_def Let_def)
qed

lemma enclosing_result_Some:
  "enclosing_result offset stack = Some name \<Longrightarrow>
   \<exists>fd \<in> set stack. fn_name fd = name \<and> fn_start fd \<le> offset \<and> offset \<le> fn_end fd"
proof -
  let ?fs = "filter (\<lambda>func. fn_start func \<le> offset \<and> fn_end func \<ge> offset) stack"
  assume a: "enclosing_result offset stack = Some name"
  then have ne: "?fs \<noteq> []" and nm: "fn_name (last ?fs) = name"
    by (auto simp: enclosing_result_def Let_def split: if_splits)
  from ne have "last ?fs \<in> set ?fs" by (rule last_in_set)
  with nm show ?thesis by auto
qed

lemma sound_entry_recorded:
  "formula_match_at tx p = Some (name, li) \<Longrightarrow> sound_entry tx offset (recorded tx offset p name li)"
  unfolding sound_entry_def
  by (rule exI[of _ p], rule exI[of _ li]) (auto simp: recorded_fields dest: recorded_sound)

lemma enclosing_loop_sound:
  "\<forall>fd \<in> set stack. sound_entry tx offset fd \<Longrightarrow>
   enclosing_loop tx offset k stack iq ql = Some name \<Longrightarrow>
   \<exists>p li. formula_match_at tx p = Some (name, li) \<and> call_encloses tx offset p li"
proof (induction "length tx - k" arbitrary: k stack iq ql rule: less_induct)
  case less
  have fin: "\<exists>p li. formula_match_at tx p = Some (name, li) \<and> call_encloses tx offset p li"
    if "enclosing_result offset stack = Some name"
  proof -
    from enclosing_result_Some[OF that] obtain fd where fd: "fd \<in> set stack" "fn_name fd = name"
      "fn_start fd \<le> offset" "offset \<le> fn_end fd"
      by blast
    from less.prems(1) fd(1) have "sound_entry tx offset fd" by blast
    with fd(4) obtain p li where m: "formula_match_at tx p = Some (fn_name fd, li)" "fn_start fd = int p"
      and c: "case closing_paren tx li of None \<Rightarrow> True | Some c \<Rightarrow> offset \<le> int c + 1"
      unfolding sound_entry_def by blast
    from m fd(2,3) c have "formula_match_at tx p = Some (name, li) \<and> call_encloses tx offset p li"
      unfolding call_encloses_def by simp
    then show ?thesis by blast
  qed
  show ?case
  proof (cases "formulaRegex_exec tx k")
    case None
    with less.prems(2) have "enclosing_result offset stack = Some name"
      unfolding enclosing_loop_unfold[of tx offset k stack iq ql] by simp
    then show ?thesis by (rule fin)
  next
    case (Some mt)
    obtain p nm li where mt: "mt = (p, nm, li)" by (cases mt) auto
    from Some mt have ex: "formulaRegex_exec tx k = Some (p, nm, li)" by simp
    show ?thesis
    proof (cases "int p > offset")
      case True
      with less.prems(2) ex have "enclosing_result offset stack = Some name"
        unfolding enclosing_loop_unfold[of tx offset k stack iq ql] by simp
      then show ?thesis by (rule fin)
    next
      case False
      obtain iq' ql' where q: "quote_loop tx p iq ql = (iq', ql')"
        by (cases "quote_loop tx p iq ql") auto
      let ?stack = "if iq then stack else stack @ [recorded tx offset p nm li]"
      from less.prems(2) ex False q
      have rec: "enclosing_loop tx offset li ?stack iq' ql' = Some name"
        unfolding enclosing_loop_unfold[of tx offset k stack iq ql] by simp
      from formulaRegex_exec_range[OF ex] have dec: "length tx - li < length tx - k"
        by auto
      from sound_entry_recorded[OF formulaRegex_exec_match[OF ex], of offset] less.prems(1)
      have good: "\<forall>fd \<in> set ?stack. sound_entry tx offset fd"
        by auto
      from less.hyps[OF dec good rec] show ?thesis .
    qed
  qed
qed

lemma child_value_step_keeps:
  "c \<noteq> CHR '')'' \<Longrightarrow> c \<noteq> CHR ''}'' \<Longrightarrow> snd (child_value_step c i child) = snd child"
  by (cases child) (simp add: child_value_step_def)

lemma scan_arguments_open:
  "1 \<le> parenBalance \<Longrightarrow> snd child = - 1 \<or> offset \<le> snd child \<Longrightarrow>
   offset < int (length tx) \<Longrightarrow>
   \<forall>j. i \<le> j \<and> int j < offset \<longrightarrow> tx ! j \<noteq> CHR '')'' \<and> tx ! j \<noteq> CHR ''}'' \<Longrightarrow>
   \<not> i < length tx \<longrightarrow> offset \<le> fnEnd \<Longrightarrow>
   scan_arguments tx offset i parenBalance child fnEnd = (e', ce', n) \<Longrightarrow>
   offset \<le> e' \<and> (ce' = - 1 \<or> offset \<le> ce')"
proof (induction tx offset i parenBalance child fnEnd rule: scan_arguments.induct)
  case (1 tx offset i parenBalance child fnEnd)
  show ?case
  proof (cases "i < length tx")
    case False
    with "1.prems"(6) have "e' = fnEnd" "ce' = snd child"
      by (simp_all add: scan_arguments_end)
    with False "1.prems"(2,5) show ?thesis by simp
  next
    case True
    define c where "c = tx ! i"
    define b' where "b' = (if c = CHR ''('' then parenBalance + 1 else if c = CHR '')'' then parenBalance - 1 else parenBalance)"
    define child' where "child' = child_value_step c i child"
    note unf = scan_arguments_step[OF True, of offset parenBalance child fnEnd, unfolded Let_def,
        folded c_def, folded b'_def, folded child'_def]
    show ?thesis
    proof (cases "c = CHR '')'' \<and> b' = 0")
      case True
      with "1.prems"(6) have r: "e' = int i + 1" "ce' = snd child"
        unfolding unf by simp_all
      from True "1.prems"(4) have "\<not> int i < offset"
        unfolding c_def by auto
      with r "1.prems"(2) show ?thesis by simp
    next
      case nz: False
      with "1.prems"(1) have pos: "1 \<le> b'"
        by (auto simp: b'_def split: if_splits)
      show ?thesis
      proof (cases "int i \<ge> offset")
        case True
        with nz pos "1.prems"(6) have r: "e' = int i + 1" "ce' = snd child'"
          unfolding unf by simp_all
        from child_value_step_snd[of c i child] have "snd child' = snd child \<or> snd child' = int i"
          unfolding child'_def .
        with r True "1.prems"(2) show ?thesis by auto
      next
        case False
        with "1.prems"(4) have "c \<noteq> CHR '')''" "c \<noteq> CHR ''}''"
          unfolding c_def by auto
        then have "snd child' = snd child"
          unfolding child'_def by (rule child_value_step_keeps)
        with "1.prems"(2) have inv: "snd child' = - 1 \<or> offset \<le> snd child'" by simp
        from "1.prems"(4) have nc: "\<forall>j. i + 1 \<le> j \<and> int j < offset \<longrightarrow> tx ! j \<noteq> CHR '')'' \<and> tx ! j \<noteq> CHR ''}''"
          by simp
        from False "1.prems"(3) have le: "\<not> i + 1 < length tx \<longrightarrow> offset \<le> fnEnd"
          by simp
        from "1.prems"(6) nz False
        have rec: "scan_arguments tx offset (i + 1) b' child' fnEnd = (e', ce', n)"
          unfolding unf by simp
        from "1.IH"[OF True c_def b'_def nz child'_def False pos inv "1.prems"(3) nc le rec]
        show ?thesis .
      qed
    qed
  qed
qed

lemma recorded_open:
  assumes "offset < int (length tx)" "li \<le> length tx"
    "\<forall>j. li \<le> j \<and> int j < offset \<longrightarrow> tx ! j \<noteq> CHR '')'' \<and> tx ! j \<noteq> CHR ''}''"
  shows "offset \<le> fn_end (recorded tx offset p name li)"
proof -
  obtain e' ce' n where sc: "scan_arguments tx offset li 1 (- 1, - 1) (int li) = (e', ce', n)"
    by (cases "scan_arguments tx offset li 1 (- 1, - 1) (int li)") auto
  from assms(1,2) have "\<not> li < length tx \<longrightarrow> offset \<le> int li" by simp
  from scan_arguments_open[OF _ _ assms(1) assms(3) this sc]
  have "offset \<le> e' \<and> (ce' = - 1 \<or> offset \<le> ce')" by simp
  then show ?thesis
    by (auto simp: recorded_def sc cut_at_child_value_def)
qed

lemma quote_loop_no_quotes: "dquote \<notin> set tx \<Longrightarrow> quote_loop tx p iq ql = (iq, 0)"
proof -
  assume "dquote \<notin> set tx"
  then have "\<forall>q. q < length tx \<longrightarrow> tx ! q \<noteq> dquote"
    using nth_mem by fastforce
  then have "quoteRegex_exec tx ql = None"
    unfolding quoteRegex_exec_def find_None_iff by auto
  then show ?thesis
    by (subst quote_loop.simps) simp
qed

lemma space_not_word: "is_space_char c \<Longrightarrow> \<not> is_word_char c"
  by (auto simp: is_space_char_def is_word_char_def)

lemma formula_match_gap:
  assumes "formula_match_at tx p1 = Some (n1, li1)" "p1 < q" "q < li1"
  shows "formula_match_at tx q = None"
proof -
  define nm where "nm = takeWhile is_word_char (drop p1 tx)"
  define after where "after = drop (p1 + length nm) tx"
  define ws where "ws = takeWhile is_space_char after"
  from assms(1) obtain rest where d: "drop (length ws) after = CHR ''('' # rest"
    and li: "li1 = p1 + length nm + length ws + 1"
    by (auto simp: formula_match_at_def Let_def nm_def after_def ws_def split: if_splits list.splits)
  show ?thesis
  proof (cases "q < p1 + length nm + 1")
    case True
    with assms(2) have j: "q - 1 - p1 < length nm" by simp
    then have "nm ! (q - 1 - p1) \<in> set nm" by (rule nth_mem)
    then have w: "is_word_char (nm ! (q - 1 - p1))"
      unfolding nm_def by (rule set_takeWhileD[THEN conjunct2])
    from j have "nm ! (q - 1 - p1) = drop p1 tx ! (q - 1 - p1)"
      unfolding nm_def by (rule takeWhile_nth)
    also have "\<dots> = tx ! (q - 1)"
    proof -
      from j have "q - 1 - p1 < length (drop p1 tx)"
        unfolding nm_def using length_takeWhile_le[of is_word_char "drop p1 tx"] by simp
      then have "p1 + (q - 1 - p1) < length tx" by simp
      then have "drop p1 tx ! (q - 1 - p1) = tx ! (p1 + (q - 1 - p1))" by simp
      with assms(2) show ?thesis by simp
    qed
    finally have "is_word_char (tx ! (q - 1))" using w by simp
    with assms(2) show ?thesis
      by (simp add: formula_match_at_def)
  next
    case False
    define j where "j = q - (p1 + length nm)"
    from False assms(3) li have jl: "j \<le> length ws" and q: "q = p1 + length nm + j" and j0: "0 < j"
      by (simp_all add: j_def)
    have len: "length (drop (length ws) after) = length after - length ws" by simp
    with d have al: "length ws < length after" by (metis length_greater_0_conv list.distinct(1) zero_less_diff)
    then have "p1 + length nm + j < length tx"
      using jl unfolding after_def by simp
    then have tq: "tx ! q = after ! j"
      unfolding q after_def by (simp add: add.commute)
    have "\<not> is_word_char (after ! j)"
    proof (cases "j < length ws")
      case True
      then have "ws ! j \<in> set ws" by (rule nth_mem)
      then have "is_space_char (ws ! j)"
        unfolding ws_def by (rule set_takeWhileD[THEN conjunct2])
      moreover from True have "ws ! j = after ! j"
        unfolding ws_def by (rule takeWhile_nth)
      ultimately show ?thesis by (simp add: space_not_word)
    next
      case False
      with jl have "j = length ws" by simp
      moreover from d al have "after ! length ws = CHR ''(''"
        by (metis Cons_nth_drop_Suc list.inject)
      ultimately show ?thesis by (simp add: is_word_char_def)
    qed
    with tq show ?thesis
      by (simp add: formula_match_at_def)
  qed
qed

lemma formulaRegex_exec_first:
  assumes "formula_match_at tx p = Some mt" "k \<le> p"
  shows "\<exists>p1 n1 li1. formulaRegex_exec tx k = Some (p1, n1, li1) \<and> k \<le> p1 \<and> p1 \<le> p"
proof -
  let ?P = "\<lambda>q. formula_match_at tx q \<noteq> None"
  obtain nm li where mt: "mt = (nm, li)" by (cases mt) auto
  from formula_match_at_range[OF assms(1)[unfolded mt]] have pl: "p < length tx" by simp
  with assms have "p \<in> set [k..<length tx]" "?P p" by simp_all
  then have "List.find ?P [k..<length tx] \<noteq> None"
    unfolding find_None_iff by blast
  then obtain p1 where f: "List.find ?P [k..<length tx] = Some p1" by blast
  then obtain i where i: "i < length [k..<length tx]" "?P ([k..<length tx] ! i)" "p1 = [k..<length tx] ! i"
    "\<forall>j<i. \<not> ?P ([k..<length tx] ! j)"
    unfolding find_Some_iff by blast
  from i(1,3) have p1: "p1 = k + i" by simp
  have "i \<le> p - k"
  proof (rule ccontr)
    assume "\<not> i \<le> p - k"
    then have lt: "p - k < i" by simp
    with i(4) have "\<not> ?P ([k..<length tx] ! (p - k))" by blast
    moreover from lt i(1) assms(2) have "[k..<length tx] ! (p - k) = p" by simp
    ultimately show False using assms(1) by simp
  qed
  with p1 assms(2) have le: "k \<le> p1" "p1 \<le> p" by simp_all
  from i(2,3) obtain n1 li1 where "formula_match_at tx p1 = Some (n1, li1)" by auto
  with f have "formulaRegex_exec tx k = Some (p1, n1, li1)"
    by (simp add: formulaRegex_exec_def)
  with le show ?thesis by blast
qed

lemma enclosing_loop_no_more:
  assumes "\<forall>p'. k \<le> p' \<and> int p' \<le> offset \<longrightarrow> formula_match_at tx p' = None"
  shows "enclosing_loop tx offset k stack iq ql = enclosing_result offset stack"
proof (cases "formulaRegex_exec tx k")
  case None
  then show ?thesis
    unfolding enclosing_loop_unfold[of tx offset k stack iq ql] by simp
next
  case (Some mt)
  obtain p nm li where mt: "mt = (p, nm, li)" by (cases mt) auto
  from Some mt have ex: "formulaRegex_exec tx k = Some (p, nm, li)" by simp
  from formulaRegex_exec_range[OF ex] formulaRegex_exec_match[OF ex] assms
  have "int p > offset" by (metis linorder_not_less option.distinct(1))
  with ex show ?thesis
    unfolding enclosing_loop_unfold[of tx offset k stack iq ql] by simp
qed

lemma enclosing_result_last:
  "fn_start fd \<le> offset \<Longrightarrow> offset \<le> fn_end fd \<Longrightarrow>
   enclosing_result offset (stack @ [fd]) = Some (fn_name fd)"
  by (simp add: enclosing_result_def)

lemma enclosing_loop_finds:
  assumes nq: "dquote \<notin> set tx"
    and m: "formula_match_at tx p = Some (name, li)"
    and po: "int p \<le> offset"
    and lst: "\<forall>p'. p < p' \<and> int p' \<le> offset \<longrightarrow> formula_match_at tx p' = None"
    and en: "offset \<le> fn_end (recorded tx offset p name li)"
  shows "k \<le> p \<Longrightarrow> enclosing_loop tx offset k stack False 0 = Some name"
proof (induction "p - k" arbitrary: k stack rule: less_induct)
  case less
  from formulaRegex_exec_first[OF m less.prems]
  obtain p1 n1 li1 where ex: "formulaRegex_exec tx k = Some (p1, n1, li1)" and le: "k \<le> p1" "p1 \<le> p"
    by blast
  note m1 = formulaRegex_exec_match[OF ex]
  note r1 = formula_match_at_range[OF m1]
  from le po have no: "\<not> int p1 > offset" by simp
  have step: "enclosing_loop tx offset k stack False 0
      = enclosing_loop tx offset li1 (stack @ [recorded tx offset p1 n1 li1]) False 0"
    unfolding enclosing_loop_unfold[of tx offset k stack False 0]
    using ex no by (simp add: quote_loop_no_quotes[OF nq])
  show ?case
  proof (cases "p1 = p")
    case True
    with m m1 have eq: "n1 = name" "li1 = li" by simp_all
    from r1 eq True lst have "\<forall>p'. li \<le> p' \<and> int p' \<le> offset \<longrightarrow> formula_match_at tx p' = None"
      by auto
    from enclosing_loop_no_more[OF this]
    have "enclosing_loop tx offset li (stack @ [recorded tx offset p name li]) False 0
        = enclosing_result offset (stack @ [recorded tx offset p name li])" .
    also have "\<dots> = Some name"
      using enclosing_result_last[of "recorded tx offset p name li" offset stack] en po
      by (simp add: recorded_fields)
    finally show ?thesis
      unfolding step True eq .
  next
    case False
    with le have lt: "p1 < p" by simp
    have "li1 \<le> p"
    proof (rule ccontr)
      assume "\<not> li1 \<le> p"
      then have "p < li1" by simp
      from formula_match_gap[OF m1 lt this] m show False by simp
    qed
    moreover from r1 le this have "p - li1 < p - k" by linarith
    ultimately have "enclosing_loop tx offset li1 (stack @ [recorded tx offset p1 n1 li1]) False 0 = Some name"
      by (intro less.hyps)
    then show ?thesis unfolding step .
  qed
qed

lemma balancing_Some:
  "balancing depth xs = Some k \<Longrightarrow> k < length xs \<and> xs ! k = CHR '')''"
proof (induction xs arbitrary: depth k)
  case Nil
  then show ?case by simp
next
  case (Cons c cs)
  show ?case
  proof (cases "c = CHR ''(''")
    case True
    with Cons.prems obtain k' where "balancing (Suc depth) cs = Some k'" "k = Suc k'"
      by auto
    with Cons.IH[of "Suc depth" k'] show ?thesis by simp
  next
    case no: False
    show ?thesis
    proof (cases "c = CHR '')''")
      case True
      show ?thesis
      proof (cases depth)
        case 0
        with True no Cons.prems show ?thesis by simp
      next
        case (Suc d)
        with True no Cons.prems obtain k' where "balancing d cs = Some k'" "k = Suc k'"
          by auto
        with Cons.IH[of d k'] show ?thesis by simp
      qed
    next
      case False
      with no Cons.prems obtain k' where "balancing depth cs = Some k'" "k = Suc k'"
        by auto
      with Cons.IH[of depth k'] show ?thesis by simp
    qed
  qed
qed

lemma closing_paren_Some:
  "closing_paren tx li = Some c \<Longrightarrow> li \<le> c \<and> c < length tx \<and> tx ! c = CHR '')''"
proof -
  assume "closing_paren tx li = Some c"
  then obtain k where k: "balancing 0 (drop li tx) = Some k" "c = li + k"
    by (auto simp: closing_paren_def)
  from balancing_Some[OF k(1)] have "k < length tx - li" "drop li tx ! k = CHR '')''"
    by simp_all
  with k(2) show ?thesis by (simp add: add.commute)
qed

lemma findEnclosingFunction_Some_encloses:
  "findEnclosingFunction tx offset = Some nm \<Longrightarrow>
   \<exists>p li. formula_match_at tx p = Some (nm, li) \<and> call_encloses tx offset p li"
  unfolding findEnclosingFunction_def
  by (intro enclosing_loop_sound[of "[]" tx offset 0 False 0 nm]) simp_all

lemma findEnclosingFunction_first_argument:
  assumes "dquote \<notin> set tx" "offset < int (length tx)"
    "formula_match_at tx p = Some (nm, li)" "int p \<le> offset"
    "\<forall>p'. p < p' \<and> int p' \<le> offset \<longrightarrow> formula_match_at tx p' = None"
    "\<forall>j. li \<le> j \<and> int j < offset \<longrightarrow> tx ! j \<noteq> CHR '')'' \<and> tx ! j \<noteq> CHR ''}''"
  shows "findEnclosingFunction tx offset = Some nm" "call_encloses tx offset p li"
proof -
  from formula_match_at_range[OF assms(3)] have li: "li \<le> length tx" by simp
  from recorded_open[OF assms(2) li assms(6)]
  have en: "offset \<le> fn_end (recorded tx offset p nm li)" .
  show "findEnclosingFunction tx offset = Some nm"
    unfolding findEnclosingFunction_def
    by (rule enclosing_loop_finds[OF assms(1,3,4,5) en]) simp
  show "call_encloses tx offset p li"
  proof (cases "closing_paren tx li")
    case None
    with assms(4) show ?thesis by (simp add: call_encloses_def)
  next
    case (Some c)
    from closing_paren_Some[OF Some] assms(6) have "\<not> int c < offset" by blast
    with Some assms(4) show ?thesis by (simp add: call_encloses_def)
  qed
qed

text \<open>
  Claim C1, amended. \<open>findEnclosingFunction\<close> returns \<open>null\<close> or the name of a function
  call that encloses the offset: an identifier that begins a word, is not preceded by a
  quote and is followed by optional white space and an opening parenthesis, that starts
  at or before the offset, and whose balancing parenthesis, if there is one, is not
  before the character in front of the offset. So it returns \<open>null\<close> when no function
  call encloses the offset. When the text holds no double quote, the offset lies inside
  the text, and no closing parenthesis or brace stands between the opening parenthesis of
  the last call that starts at or before the offset and the offset, it returns that call,
  which is then the innermost enclosing one. Beyond that it need not return the innermost
  enclosing call: the recorded span of a call is cut behind a child value that ended
  before the offset.
\<close>

theorem findEnclosingFunction_encloses:
  "(findEnclosingFunction tx offset = Some name
      \<longrightarrow> (\<exists>p li. formula_match_at tx p = Some (name, li) \<and> call_encloses tx offset p li))
   \<and> ((\<forall>p nm li. formula_match_at tx p = Some (nm, li) \<longrightarrow> \<not> call_encloses tx offset p li)
      \<longrightarrow> findEnclosingFunction tx offset = None)
   \<and> (dquote \<notin> set tx \<and> offset < int (length tx)
        \<and> formula_match_at tx p = Some (nm, li) \<and> int p \<le> offset
        \<and> (\<forall>p'. p < p' \<and> int p' \<le> offset \<longrightarrow> formula_match_at tx p' = None)
        \<and> (\<forall>j. li \<le> j \<and> int j < offset \<longrightarrow> tx ! j \<noteq> CHR '')'' \<and> tx ! j \<noteq> CHR ''}'')
      \<longrightarrow> findEnclosingFunction tx offset = Some nm \<and> call_encloses tx offset p li)"
proof (intro conjI impI)
  assume "findEnclosingFunction tx offset = Some name"
  then show "\<exists>p li. formula_match_at tx p = Some (name, li) \<and> call_encloses tx offset p li"
    by (rule findEnclosingFunction_Some_encloses)
next
  assume a: "\<forall>p nm li. formula_match_at tx p = Some (nm, li) \<longrightarrow> \<not> call_encloses tx offset p li"
  show "findEnclosingFunction tx offset = None"
  proof (cases "findEnclosingFunction tx offset")
    case None
    then show ?thesis .
  next
    case (Some n)
    from findEnclosingFunction_Some_encloses[OF this] a show ?thesis by blast
  qed
next
  assume a: "dquote \<notin> set tx \<and> offset < int (length tx)
        \<and> formula_match_at tx p = Some (nm, li) \<and> int p \<le> offset
        \<and> (\<forall>p'. p < p' \<and> int p' \<le> offset \<longrightarrow> formula_match_at tx p' = None)
        \<and> (\<forall>j. li \<le> j \<and> int j < offset \<longrightarrow> tx ! j \<noteq> CHR '')'' \<and> tx ! j \<noteq> CHR ''}'')"
  then show "findEnclosingFunction tx offset = Some nm"
    by (intro findEnclosingFunction_first_argument(1)[of tx offset p nm li]) blast+
  from a show "call_encloses tx offset p li"
    by (intro findEnclosingFunction_first_argument(2)[of tx offset p nm li]) blast+
qed

theorem findEnclosingFunction_encloses_witness:
  "findEnclosingFunction ''IF(SUM(1), 2)'' 8 = Some ''SUM''
   \<and> formula_match_at ''IF(SUM(1), 2)'' 3 = Some (''SUM'', 7)
   \<and> call_encloses ''IF(SUM(1), 2)'' 8 3 7
   \<and> (\<exists>p li. formula_match_at ''IF(SUM(1), 2)'' p = Some (''SUM'', li) \<and> call_encloses ''IF(SUM(1), 2)'' 8 p li)
   \<and> findEnclosingFunction ''1 + 2'' 2 = None"
proof -
  let ?t = "''IF(SUM(1), 2)''"
  have q: "dquote \<notin> set ?t" "(8::int) < int (length ?t)" "int 3 \<le> 8"
    by simp_all
  have m: "formula_match_at ?t 3 = Some (''SUM'', 7)"
    by (simp add: formula_match_at_def is_word_char_def is_space_char_def)
  have l: "\<forall>p'. 3 < p' \<and> int p' \<le> 8 \<longrightarrow> formula_match_at ?t p' = None"
  proof (intro allI impI)
    fix p' :: nat
    assume "3 < p' \<and> int p' \<le> 8"
    then consider "p' = 4" | "p' = 5" | "p' = 6" | "p' = 7" | "p' = 8" by linarith
    then show "formula_match_at ?t p' = None"
      by cases (simp_all add: formula_match_at_def is_word_char_def is_space_char_def)
  qed
  have c: "\<forall>j. 7 \<le> j \<and> int j < 8 \<longrightarrow> ?t ! j \<noteq> CHR '')'' \<and> ?t ! j \<noteq> CHR ''}''"
  proof (intro allI impI)
    fix j :: nat
    assume "7 \<le> j \<and> int j < 8"
    then have "j = 7" by linarith
    then show "?t ! j \<noteq> CHR '')'' \<and> ?t ! j \<noteq> CHR ''}''" by simp
  qed
  from findEnclosingFunction_encloses[of ?t 8 "''SUM''" 3 "''SUM''" 7] q m l c
  have f: "findEnclosingFunction ?t 8 = Some ''SUM''" "call_encloses ?t 8 3 7"
    by blast+
  with findEnclosingFunction_encloses[of ?t 8 "''SUM''" 3 "''SUM''" 7]
  have a: "\<exists>p li. formula_match_at ?t p = Some (''SUM'', li) \<and> call_encloses ?t 8 p li"
    by blast
  have n: "formula_match_at ''1 + 2'' p = None" for p
  proof (cases "p < 5")
    case False
    then show ?thesis by (simp add: formula_match_at_def)
  next
    case True
    then consider "p = 0" | "p = 1" | "p = 2" | "p = 3" | "p = 4" by linarith
    then show ?thesis
      by cases (simp_all add: formula_match_at_def is_word_char_def is_space_char_def)
  qed
  then have h: "\<forall>p nm li. formula_match_at ''1 + 2'' p = Some (nm, li) \<longrightarrow> \<not> call_encloses ''1 + 2'' 2 p li"
    by simp
  with findEnclosingFunction_encloses[of "''1 + 2''" 2] have b: "findEnclosingFunction ''1 + 2'' 2 = None"
    by blast
  from f m a b show ?thesis by blast
qed

subsection \<open>Suggestions computed by handleInput\<close>

lemma insert_js_type_cmp: "insert_js type_cmp x ys = insort_key (\<lambda>x. sortOrder (type x)) x ys"
  by (induction ys) (simp_all add: type_cmp_def)

lemma sort_js_type_cmp: "sort_js type_cmp xs = sort_key (\<lambda>x. sortOrder (type x)) xs"
  by (induction xs) (simp_all add: sort_js_def insert_js_type_cmp)

text \<open>
  For the consistent comparison by type the sort results are the one list that the
  language prescribes.
\<close>

lemma sort_result_type_cmp: "sort_result type_cmp xs r \<longleftrightarrow> r = sort_js type_cmp xs"
proof
  assume a: "sort_result type_cmp xs r"
  have "sort_key (\<lambda>x. sortOrder (type x)) xs = r"
  proof (rule properties_for_sort_key)
    from a show "mset r = mset xs" by (simp add: sort_result_def)
    from a have "sorted_wrt (\<lambda>x y. sortOrder (type x) \<le> sortOrder (type y)) r"
      by (simp add: sort_result_def type_cmp_def not_less)
    then show "sorted (map (\<lambda>x. sortOrder (type x)) r)"
      by (simp add: sorted_map)
    fix k assume "k \<in> set r"
    with a have "k \<in> set xs"
      by (auto simp: sort_result_def dest: mset_eq_setD)
    with a have "filter (\<lambda>x. type_cmp k x = 0 \<and> type_cmp x k = 0) r
               = filter (\<lambda>x. type_cmp k x = 0 \<and> type_cmp x k = 0) xs"
      by (simp add: sort_result_def)
    moreover have "(type_cmp k x = 0 \<and> type_cmp x k = 0) = (sortOrder (type k) = sortOrder (type x))" for x
      by (auto simp: type_cmp_def)
    ultimately show "filter (\<lambda>x. sortOrder (type k) = sortOrder (type x)) r
                   = filter (\<lambda>x. sortOrder (type k) = sortOrder (type x)) xs"
      by simp
  qed
  then show "r = sort_js type_cmp xs"
    by (simp add: sort_js_type_cmp)
next
  assume r: "r = sort_js type_cmp xs"
  have e: "(type_cmp k x = 0 \<and> type_cmp x k = 0) = (sortOrder (type x) = sortOrder (type k))" for k x
    by (auto simp: type_cmp_def)
  have "sorted (map (\<lambda>x. sortOrder (type x)) (sort_key (\<lambda>x. sortOrder (type x)) xs))"
    by (rule sorted_sort_key)
  then have "sorted_wrt (\<lambda>x y. \<not> (type_cmp y x < 0 \<and> 0 < type_cmp x y)) (sort_key (\<lambda>x. sortOrder (type x)) xs)"
    by (simp add: sorted_map type_cmp_def not_less)
  then show "sort_result type_cmp xs r"
    unfolding r sort_js_type_cmp sort_result_def e
    by (simp add: sort_key_stable)
qed























text \<open>
  With the consistent comparison by type the engine's sort of the worked examples
  returns what the language prescribes.
\<close>

lemma type_cmp_less: "type_cmp x y < 0 \<longleftrightarrow> sortOrder (type x) < sortOrder (type y)"
  by (simp add: type_cmp_def)

lemma mset_insert_leftward: "mset (insert_leftward cmp x acc) = add_mset x (mset acc)"
  by (induction acc) simp_all

lemma set_insert_leftward: "set (insert_leftward cmp x acc) = insert x (set acc)"
  by (induction acc) auto

lemma descending_insert_leftward:
  "sorted_wrt (\<lambda>a b. sortOrder (type b) \<le> sortOrder (type a)) acc \<Longrightarrow>
   sorted_wrt (\<lambda>a b. sortOrder (type b) \<le> sortOrder (type a)) (insert_leftward type_cmp x acc)"
  by (induction acc) (auto simp: type_cmp_less set_insert_leftward)

lemma filter_insert_leftward:
  "sorted_wrt (\<lambda>a b. sortOrder (type b) \<le> sortOrder (type a)) acc \<Longrightarrow>
   filter (\<lambda>y. k = sortOrder (type y)) (insert_leftward type_cmp x acc)
     = (if k = sortOrder (type x) then [x] else []) @ filter (\<lambda>y. k = sortOrder (type y)) acc"
  by (induction acc) (auto simp: type_cmp_less)

lemma fold_insert_leftward_type_cmp:
  "mset (fold (insert_leftward type_cmp) xs []) = mset xs
   \<and> sorted_wrt (\<lambda>a b. sortOrder (type b) \<le> sortOrder (type a)) (fold (insert_leftward type_cmp) xs [])
   \<and> filter (\<lambda>y. k = sortOrder (type y)) (fold (insert_leftward type_cmp) xs [])
       = rev (filter (\<lambda>y. k = sortOrder (type y)) xs)"
proof (induction xs rule: rev_induct)
  case Nil
  show ?case by simp
next
  case (snoc x xs)
  then show ?case
    by (simp add: mset_insert_leftward descending_insert_leftward filter_insert_leftward)
qed

lemma example_engineSort_type_cmp: "example_engineSort type_cmp xs = sort_js type_cmp xs"
proof -
  let ?g = "fold (insert_leftward type_cmp) xs []"
  note f = fold_insert_leftward_type_cmp[of xs]
  have "sort_key (\<lambda>x. sortOrder (type x)) xs = rev ?g"
  proof (rule properties_for_sort_key)
    show "mset (rev ?g) = mset xs" using f by simp
    show "sorted (map (\<lambda>x. sortOrder (type x)) (rev ?g))"
      using f by (simp add: sorted_wrt_rev sorted_map)
    fix k assume "k \<in> set (rev ?g)"
    from fold_insert_leftward_type_cmp[of xs "sortOrder (type k)"]
    show "filter (\<lambda>x. sortOrder (type k) = sortOrder (type x)) (rev ?g)
        = filter (\<lambda>x. sortOrder (type k) = sortOrder (type x)) xs"
      by (simp add: rev_filter[symmetric])
  qed
  then show ?thesis
    by (simp add: example_engineSort_def sort_js_type_cmp)
qed

subsection \<open>Filtering collaborators\<close>















subsection \<open>Selecting an unsupported function\<close>

text \<open>
  Claim C10. When the selected index points into the list of suggested formulas at an
  entry marked unsupported, \<open>selectText\<close> throws nothing and leaves the editor, and so
  its text, as it was: it returns at once, with the state unchanged, when the index is
  also below the length of \<open>suggestionsList\<close>, and otherwise only resets the selected
  index. No edit is executed, no listener runs, and the form model keeps its formula.
\<close>

theorem selectText_unsupported_no_edit:
  assumes "0 \<le> selected s" "selected s < int (length (suggestedFormulas s))"
    "unsupported (suggestedFormulas s ! nat (selected s))"
  shows "selectText api engineSort complete sugList s
           = (if selected s < int (length sugList) then Inr s else Inr (s\<lparr>selected := 0\<rparr>))
       \<and> (\<exists>s'. selectText api engineSort complete sugList s = Inr s' \<and> editor s' = editor s
                \<and> suggestion s' = suggestion s \<and> vModel_value s' = vModel_value s)"
proof -
  from assms(1,2) have ix: "js_index (suggestedFormulas s) (selected s) = Some (suggestedFormulas s ! nat (selected s))"
    by (simp add: js_index_def)
  from assms(1) have gt: "selected s > - 1" by simp
  have eq: "selectText api engineSort complete sugList s
           = (if selected s < int (length sugList) then Inr s else Inr (s\<lparr>selected := 0\<rparr>))"
    unfolding selectText_def using gt assms(2,3) ix by simp
  show ?thesis
    unfolding eq by simp
qed

theorem selectText_unsupported_no_edit_witness:
  "selectText line_api example_engineSort example_complete example_suggestions completing_state
     = Inr completing_state
   \<and> suggestedFormulas completing_state ! 0 = function_entry example_formulas [''XOR''] ''XOR''
   \<and> unsupported (function_entry example_formulas [''XOR''] ''XOR'')"
proof -
  have sf: "suggestedFormulas completing_state = [function_entry example_formulas [''XOR''] ''XOR'']"
    by (simp add: suggestedFormulas_def completing_state_def function_entry_def)
  have u: "unsupported (function_entry example_formulas [''XOR''] ''XOR'')"
    by (simp add: function_entry_def)
  have sel: "selected completing_state = 0"
    by (simp add: completing_state_def)
  have l: "length example_suggestions = 5"
    by (simp add: example_suggestions_def)
  from selectText_unsupported_no_edit[of completing_state line_api example_engineSort example_complete
         example_suggestions]
  have "selectText line_api example_engineSort example_complete example_suggestions completing_state
          = Inr completing_state"
    by (simp add: sf u sel l)
  with sf u show ?thesis by simp
qed

text \<open>
  For comparison, the same state with a supported function selected: the typed letter is
  replaced by the function's text and the cursor is put between its parentheses. The
  edits call the listeners: the form model receives the new text, and the cursor
  listener, which runs last with the cursor between the parentheses, leaves the priority
  at \<open>-1\<close> and previews the enclosing function.
\<close>

lemma selectText_supported_example:
  "selectText line_api example_engineSort example_complete example_suggestions
      (completing_state\<lparr>suggestion := [function_entry example_formulas [''XOR''] ''SUM'']\<rparr>)
   = Inr (completing_state
            \<lparr>editor := Some \<lparr>le_text = ''1 + SUM()'', le_column = 9\<rparr>,
             vModel_value := \<lparr>formula = None, formula_raw = Some ''1 + SUM()''\<rparr>,
             autocomplete := False, wordToComplete := [],
             suggestion := [column_entry (example_columns ! 0)],
             suggestionPreviewed := Some (function_entry example_formulas [''XOR''] ''SUM''),
             selected := 0, priority := - 1\<rparr>)"
  by code_simp

end
